theory Spec2Isabelle
  imports Main
begin

section \<open>Domain model\<close>

text \<open>
  An issue as the client (\<^verbatim>\<open>domain/types\<close>) and the server (Prisma model) hold it.
  The status is a string at run time on both sides (\<^verbatim>\<open>"backlog" | "todo" | "in_progress" | "done"\<close>);
  the drag handlers cast an arbitrary string to it, so it stays a string here.
  A nullable field is an \<open>option\<close>. The field \<^verbatim>\<open>id\<close> is written \<open>id'\<close>.
\<close>

record Issue =
  id' :: string
  key :: string
  boardId :: string
  sprintId :: "string option"
  title :: string
  description :: string
  status :: string
  order :: int
  assigneeId :: "string option"
  watcherIds :: "string list"

definition IssueStatus_backlog :: string where
  "IssueStatus_backlog = ''backlog''"

definition IssueStatus_todo :: string where
  "IssueStatus_todo = ''todo''"

text \<open>
  \<^verbatim>\<open>Partial<Issue>\<close> (client) and the \<^verbatim>\<open>patch: any\<close> body the server tests with
  \<^verbatim>\<open>"field" in patch\<close>: every field may be absent (\<open>None\<close>). For a nullable field,
  \<open>Some None\<close> is an explicit \<^verbatim>\<open>null\<close>.
\<close>

record IssuePatch =
  p_id :: "string option"
  p_key :: "string option"
  p_boardId :: "string option"
  p_sprintId :: "string option option"
  p_title :: "string option"
  p_description :: "string option"
  p_status :: "string option"
  p_order :: "int option"
  p_assigneeId :: "string option option"
  p_watcherIds :: "string list option"

definition no_patch :: IssuePatch where
  "no_patch = \<lparr> p_id = None, p_key = None, p_boardId = None, p_sprintId = None,
     p_title = None, p_description = None, p_status = None, p_order = None,
     p_assigneeId = None, p_watcherIds = None \<rparr>"

text \<open>JavaScript truthiness of a \<^verbatim>\<open>string | null\<close>: \<^verbatim>\<open>null\<close> and \<^verbatim>\<open>""\<close> are falsy.\<close>

fun truthy :: "string option \<Rightarrow> bool" where
  "truthy None = False"
| "truthy (Some s) = (s \<noteq> [])"

section \<open>Order Normalizer\<close>

definition ORDER_STEP :: int where
  "ORDER_STEP = 1000"

text \<open>
  Server (\<^verbatim>\<open>BoardsService\<close> file):
  \<^verbatim>\<open>items.map((it, idx) => ({ id: it.id, order: (idx + 1) * ORDER_STEP }))\<close>.
\<close>

definition normalizeOrders_srv :: "Issue list \<Rightarrow> (string \<times> int) list" where
  "normalizeOrders_srv items =
     map (\<lambda>(idx, it). (id' it, (int idx + 1) * ORDER_STEP)) (enumerate 0 items)"

text \<open>
  Client (\<^verbatim>\<open>BoardPage\<close>):
  \<^verbatim>\<open>list.slice().map((it, idx) => ({ ...it, order: (idx + 1) * 1000 }))\<close>.
\<close>

definition normalizeOrders :: "Issue list \<Rightarrow> Issue list" where
  "normalizeOrders list =
     map (\<lambda>(idx, it). it\<lparr>order := (int idx + 1) * 1000\<rparr>) (enumerate 0 list)"

section \<open>Issue service (server)\<close>

datatype error = NotFound | RecordNotFound | TypeError

text \<open>JavaScript's \<^verbatim>\<open>v ?? d\<close> on an optional value.\<close>

definition field_or :: "'a option \<Rightarrow> 'a \<Rightarrow> 'a" where
  "field_or v d = (case v of None \<Rightarrow> d | Some x \<Rightarrow> x)"

text \<open>
  Writing the named fields over a record: the client's \<^verbatim>\<open>{ ...it, ...patch }\<close> and
  Prisma's \<^verbatim>\<open>update({ data })\<close>, which sets exactly the fields \<^verbatim>\<open>data\<close> names.
\<close>

definition applyPatch :: "Issue \<Rightarrow> IssuePatch \<Rightarrow> Issue" where
  "applyPatch it p =
     \<lparr> id' = field_or (p_id p) (id' it),
       key = field_or (p_key p) (key it),
       boardId = field_or (p_boardId p) (boardId it),
       sprintId = field_or (p_sprintId p) (sprintId it),
       title = field_or (p_title p) (title it),
       description = field_or (p_description p) (description it),
       status = field_or (p_status p) (status it),
       order = field_or (p_order p) (order it),
       assigneeId = field_or (p_assigneeId p) (assigneeId it),
       watcherIds = field_or (p_watcherIds p) (watcherIds it) \<rparr>"

text \<open>Prisma \<^verbatim>\<open>update({ where: { id }, data })\<close> on the table (the id is the primary key).\<close>

definition update_where_id :: "Issue list \<Rightarrow> string \<Rightarrow> (Issue \<Rightarrow> Issue) \<Rightarrow> Issue list" where
  "update_where_id db i f = map (\<lambda>r. if id' r = i then f r else r) db"

text \<open>
  \<^verbatim>\<open>IssuesService.patch\<close>, the construction of \<^verbatim>\<open>data\<close> from the stored row and the
  request body: the six \<^verbatim>\<open>if ("f" in patch) data.f = patch.f\<close> lines in the source's
  order, then the \<^verbatim>\<open>sprintId\<close> block, which assigns \<^verbatim>\<open>data.status\<close> last.
\<close>

definition patch_data :: "Issue \<Rightarrow> IssuePatch \<Rightarrow> IssuePatch" where
  "patch_data existing patch =
     (let data = no_patch;
          data = (case p_title patch of None \<Rightarrow> data | Some v \<Rightarrow> data\<lparr>p_title := Some v\<rparr>);
          data = (case p_description patch of None \<Rightarrow> data
                  | Some v \<Rightarrow> data\<lparr>p_description := Some v\<rparr>);
          data = (case p_status patch of None \<Rightarrow> data | Some v \<Rightarrow> data\<lparr>p_status := Some v\<rparr>);
          data = (case p_order patch of None \<Rightarrow> data | Some v \<Rightarrow> data\<lparr>p_order := Some v\<rparr>);
          data = (case p_assigneeId patch of None \<Rightarrow> data
                  | Some v \<Rightarrow> data\<lparr>p_assigneeId := Some v\<rparr>);
          data = (case p_watcherIds patch of None \<Rightarrow> data
                  | Some v \<Rightarrow> data\<lparr>p_watcherIds := Some v\<rparr>)
      in (case p_sprintId patch of
            None \<Rightarrow> data
          | Some sp \<Rightarrow>
              (let data = data\<lparr>p_sprintId := Some sp\<rparr>
               in if sp = None then data\<lparr>p_status := Some IssueStatus_backlog\<rparr>
                  else if status existing = IssueStatus_backlog
                       then data\<lparr>p_status := Some IssueStatus_todo\<rparr>
                  else data)))"

text \<open>
  \<^verbatim>\<open>IssuesService.patch(id, patch)\<close>: \<^verbatim>\<open>findUniqueOrThrow\<close>, then the update. The result
  is the updated row and the new table.
\<close>

definition IssuesService_patch ::
  "Issue list \<Rightarrow> string \<Rightarrow> IssuePatch \<Rightarrow> error + (Issue \<times> Issue list)" where
  "IssuesService_patch db i patch =
     (case find (\<lambda>x. id' x = i) db of
        None \<Rightarrow> Inl RecordNotFound
      | Some existing \<Rightarrow>
          (let data = patch_data existing patch
           in Inr (applyPatch existing data,
                   update_where_id db i (\<lambda>r. applyPatch r data))))"

text \<open>\<^verbatim>\<open>IssuesService.buildBatchPatchData(patch)\<close>: it never reads the stored row.\<close>

definition buildBatchPatchData :: "IssuePatch \<Rightarrow> IssuePatch" where
  "buildBatchPatchData patch =
     (let data = no_patch;
          data = (case p_status patch of None \<Rightarrow> data | Some v \<Rightarrow> data\<lparr>p_status := Some v\<rparr>);
          data = (case p_order patch of None \<Rightarrow> data | Some v \<Rightarrow> data\<lparr>p_order := Some v\<rparr>);
          data = (case p_assigneeId patch of None \<Rightarrow> data
                  | Some v \<Rightarrow> data\<lparr>p_assigneeId := Some v\<rparr>);
          data = (case p_watcherIds patch of None \<Rightarrow> data
                  | Some v \<Rightarrow> data\<lparr>p_watcherIds := Some v\<rparr>)
      in (case p_sprintId patch of
            None \<Rightarrow> data
          | Some sp \<Rightarrow>
              (let data = data\<lparr>p_sprintId := Some sp\<rparr>
               in if sp = None then data\<lparr>p_status := Some IssueStatus_backlog\<rparr>
                  else data\<lparr>p_status := Some IssueStatus_todo\<rparr>)))"

text \<open>
  \<^verbatim>\<open>IssuesService.batchPatch(changes)\<close>: one transaction of updates in the order of
  \<^verbatim>\<open>changes\<close>; an update of an absent id throws and the transaction is rolled back
  (\<open>Inl\<close>, the caller keeps the old table). The result lists the updated rows.
\<close>

fun batchPatch :: "Issue list \<Rightarrow> (string \<times> IssuePatch) list \<Rightarrow> error + (Issue list \<times> Issue list)" where
  "batchPatch db [] = Inr ([], db)"
| "batchPatch db (c # cs) =
     (case find (\<lambda>x. id' x = fst c) db of
        None \<Rightarrow> Inl RecordNotFound
      | Some r \<Rightarrow>
          (let data = buildBatchPatchData (snd c);
               db1 = update_where_id db (fst c) (\<lambda>r. applyPatch r data)
           in (case batchPatch db1 cs of
                 Inl e \<Rightarrow> Inl e
               | Inr (us, db2) \<Rightarrow> Inr (applyPatch r data # us, db2))))"

section \<open>Boards service (server)\<close>

record Sprint =
  sp_id :: string
  sp_boardId :: string
  sp_name :: string
  sp_isActive :: bool

text \<open>\<^verbatim>\<open>updateMany({ where: { boardId, isActive: true }, data: { isActive: false } })\<close>.\<close>

definition deactivate_board :: "Sprint list \<Rightarrow> string \<Rightarrow> Sprint list" where
  "deactivate_board tbl b =
     map (\<lambda>s. if sp_boardId s = b \<and> sp_isActive s then s\<lparr>sp_isActive := False\<rparr> else s) tbl"

text \<open>\<^verbatim>\<open>update({ where: { id: sprintId }, data: { isActive: true } })\<close>.\<close>

definition activate_sprint :: "Sprint list \<Rightarrow> string \<Rightarrow> Sprint list" where
  "activate_sprint tbl sid =
     map (\<lambda>s. if sp_id s = sid then s\<lparr>sp_isActive := True\<rparr> else s) tbl"

text \<open>
  The file of \<^verbatim>\<open>BoardsService\<close> holds the class twice. The first text
  (\<open>createSprint_1\<close>, \<open>setActiveSprint_1\<close>) runs the transaction at once; the second
  (\<open>createSprint_2\<close>, \<open>setActiveSprint_2\<close>) first checks that the board exists, and that the
  sprint belongs to the board. \<^verbatim>\<open>moveIssue\<close> is the same in both. A transaction is one
  step of the model: its intermediate tables are local values. The new row's id is
  generated by the store and is a parameter here; \<^verbatim>\<open>!!args.isActive\<close> of an optional flag
  is \<open>isActive = Some True\<close>.
\<close>

definition createSprint_1 ::
  "Sprint list \<Rightarrow> string \<Rightarrow> string \<Rightarrow> string \<Rightarrow> bool option \<Rightarrow> Sprint \<times> Sprint list" where
  "createSprint_1 tbl newId b nm isActiveArg =
     (let isActive = (isActiveArg = Some True);
          t1 = (if isActive then deactivate_board tbl b else tbl);
          s = \<lparr> sp_id = newId, sp_boardId = b, sp_name = nm, sp_isActive = isActive \<rparr>
      in (s, t1 @ [s]))"

definition createSprint_2 ::
  "string list \<Rightarrow> Sprint list \<Rightarrow> string \<Rightarrow> string \<Rightarrow> string \<Rightarrow> bool option
     \<Rightarrow> error + (Sprint \<times> Sprint list)" where
  "createSprint_2 boards tbl newId b nm isActiveArg =
     (if b \<notin> set boards then Inl NotFound
      else Inr (createSprint_1 tbl newId b nm isActiveArg))"

definition setActiveSprint_1 ::
  "Sprint list \<Rightarrow> string \<Rightarrow> string \<Rightarrow> error + (Sprint \<times> Sprint list)" where
  "setActiveSprint_1 tbl b sid =
     (let t1 = deactivate_board tbl b
      in (case find (\<lambda>s. sp_id s = sid) t1 of
            None \<Rightarrow> Inl RecordNotFound
          | Some s \<Rightarrow> Inr (s\<lparr>sp_isActive := True\<rparr>, activate_sprint t1 sid)))"

definition setActiveSprint_2 ::
  "Sprint list \<Rightarrow> string \<Rightarrow> string \<Rightarrow> error + (Sprint \<times> Sprint list)" where
  "setActiveSprint_2 tbl b sid =
     (case find (\<lambda>s. sp_id s = sid \<and> sp_boardId s = b) tbl of
        None \<Rightarrow> Inl NotFound
      | Some sprint \<Rightarrow> setActiveSprint_1 tbl b sid)"

text \<open>The number of active sprints of a board, and the invariant over the boards of the table.\<close>

definition active_count :: "Sprint list \<Rightarrow> string \<Rightarrow> nat" where
  "active_count tbl b = length (filter (\<lambda>s. sp_boardId s = b \<and> sp_isActive s) tbl)"

definition one_active_per_board :: "Sprint list \<Rightarrow> bool" where
  "one_active_per_board tbl = list_all (\<lambda>b. active_count tbl b \<le> 1) (map sp_boardId tbl)"

text \<open>
  \<^verbatim>\<open>findMany\<close> of one column, \<^verbatim>\<open>orderBy: { order: "asc" }\<close>, and of one scope,
  \<^verbatim>\<open>orderBy: [{ status: "asc" }, { order: "asc" }]\<close>. The store's order among equal keys
  is not fixed by the source; the model keeps the table's order there. The order of the
  status enumeration is declared in the Prisma schema, which is not among the sources: it
  is the parameter \<open>rank\<close>.
\<close>

definition findMany_column :: "Issue list \<Rightarrow> string \<Rightarrow> string option \<Rightarrow> string \<Rightarrow> Issue list" where
  "findMany_column db b sp st =
     sort_key order (filter (\<lambda>x. boardId x = b \<and> sprintId x = sp \<and> status x = st) db)"

definition findMany_scope ::
  "(string \<Rightarrow> nat) \<Rightarrow> Issue list \<Rightarrow> string \<Rightarrow> string option \<Rightarrow> Issue list" where
  "findMany_scope rank db b sp =
     sort_key (\<lambda>x. rank (status x))
       (sort_key order (filter (\<lambda>x. boardId x = b \<and> sprintId x = sp) db))"

record MoveBody =
  b_sprintId :: "string option"
  b_status :: "string option"
  b_order :: "int option"

text \<open>
  \<^verbatim>\<open>BoardsService.moveIssue(boardId, id, body)\<close>. The result is the list returned to the
  caller and the new table. \<^verbatim>\<open>normalizedTo.find((x) => x.id === id)!.order\<close> throws a
  TypeError when nothing is found.
\<close>

definition moveIssue ::
  "(string \<Rightarrow> nat) \<Rightarrow> Issue list \<Rightarrow> string \<Rightarrow> string \<Rightarrow> MoveBody
     \<Rightarrow> error + (Issue list \<times> Issue list)" where
  "moveIssue rank db b i body =
     (case find (\<lambda>x. id' x = i) db of
        None \<Rightarrow> Inl NotFound
      | Some issue \<Rightarrow>
          if boardId issue \<noteq> b then Inl NotFound
          else
            (let fromSprintId = sprintId issue;
                 fromStatus = status issue;
                 toSprintId = b_sprintId body;
                 toStatus = (case b_status body of
                               Some s \<Rightarrow> s
                             | None \<Rightarrow> if truthy toSprintId then IssueStatus_todo
                                       else IssueStatus_backlog)
             in if fromSprintId = toSprintId \<and> fromStatus = toStatus
                then Inr (findMany_scope rank db b toSprintId, db)
                else
                  (let fromList = findMany_column db b fromSprintId fromStatus;
                       toList = findMany_column db b toSprintId toStatus;
                       fromWithout = filter (\<lambda>x. id' x \<noteq> i) fromList;
                       toNext = toList @ [issue\<lparr>sprintId := toSprintId, status := toStatus\<rparr>];
                       normalizedFrom = normalizeOrders_srv fromWithout;
                       normalizedTo = normalizeOrders_srv toNext
                   in (case find (\<lambda>x. fst x = i) normalizedTo of
                         None \<Rightarrow> Inl TypeError
                       | Some me \<Rightarrow>
                           (let db1 = update_where_id db i
                                        (\<lambda>r. r\<lparr>sprintId := toSprintId, status := toStatus,
                                                order := snd me\<rparr>);
                                db2 = foldl (\<lambda>d it. update_where_id d (fst it)
                                                       (\<lambda>r. r\<lparr>order := snd it\<rparr>))
                                        db1 normalizedFrom;
                                db3 = foldl (\<lambda>d it. update_where_id d (fst it)
                                                       (\<lambda>r. r\<lparr>order := snd it\<rparr>))
                                        db2 (filter (\<lambda>it. fst it \<noteq> i) normalizedTo)
                            in Inr (findMany_scope rank db3 b toSprintId, db3))))))"

section \<open>Drop target resolver and reorder/move engine (client)\<close>

datatype view = ViewBacklog | ViewSprint

text \<open>\<^verbatim>\<open>issues.slice().sort((a, b) => a.order - b.order)\<close>; the sort is stable.\<close>

definition scopedIssues :: "Issue list \<Rightarrow> Issue list" where
  "scopedIssues issues = sort_key order issues"

text \<open>
  \<^verbatim>\<open>parseDropStatus(id)\<close>: \<^verbatim>\<open>null\<close> for a falsy id; for an id that starts with
  \<^verbatim>\<open>"status:"\<close> the rest of the string, cast to a status without a check.
\<close>

definition parseDropStatus :: "string option \<Rightarrow> string option" where
  "parseDropStatus oid =
     (case oid of
        None \<Rightarrow> None
      | Some s \<Rightarrow> if s = [] then None
                  else if take 7 s = ''status:'' then Some (drop 7 s) else None)"

definition canShowStatus :: "view \<Rightarrow> string \<Rightarrow> bool" where
  "canShowStatus v s = (if v = ViewBacklog then s = ''backlog'' else s \<noteq> ''backlog'')"

text \<open>\<^verbatim>\<open>Array.prototype.findIndex\<close>: the first index whose element satisfies \<open>P\<close>, or \<open>-1\<close>.\<close>

fun findIndex :: "('a \<Rightarrow> bool) \<Rightarrow> 'a list \<Rightarrow> int" where
  "findIndex P [] = - 1"
| "findIndex P (x # xs) =
     (if P x then 0 else (let r = findIndex P xs in if r < 0 then - 1 else r + 1))"

text \<open>
  Modelled from the spec: \<^verbatim>\<open>arrayMove\<close> is imported from the drag-and-drop library, which is
  not among the sources. The spec gives its meaning: "array move semantics (remove from
  old index, insert at new index)". The handlers call it with indices that
  \<open>findIndex\<close> returned for the same list; for an old index out of range the list is
  returned as it is.
\<close>

definition arrayMove :: "'a list \<Rightarrow> nat \<Rightarrow> nat \<Rightarrow> 'a list" where
  "arrayMove xs i j =
     (if i < length xs
      then (let x = xs ! i; rest = take i xs @ drop (Suc i) xs
            in take j rest @ [x] @ drop j rest)
      else xs)"

definition order_patch :: "int \<Rightarrow> IssuePatch" where
  "order_patch v = no_patch\<lparr>p_order := Some v\<rparr>"

definition status_order_patch :: "string \<Rightarrow> int \<Rightarrow> IssuePatch" where
  "status_order_patch st v = no_patch\<lparr>p_status := Some st, p_order := Some v\<rparr>"

text \<open>
  The patches of a same-column reorder, the same text in both handlers:
  \<^verbatim>\<open>normalizeOrders(arrayMove(list, oldIndex, newIndex)).map((it) => ({ id: it.id, patch: { order: it.order } }))\<close>.
\<close>

definition reorder_patches :: "Issue list \<Rightarrow> int \<Rightarrow> int \<Rightarrow> (string \<times> IssuePatch) list" where
  "reorder_patches list i j =
     map (\<lambda>it. (id' it, order_patch (order it))) (normalizeOrders (arrayMove list (nat i) (nat j)))"

text \<open>The column of a status: \<^verbatim>\<open>scopedIssues.filter((i) => i.status === s).slice().sort(...)\<close>.\<close>

definition column :: "Issue list \<Rightarrow> string \<Rightarrow> Issue list" where
  "column scoped s = sort_key order (filter (\<lambda>i. status i = s) scoped)"

text \<open>
  The destination status of a drop, \<^verbatim>\<open>toStatus\<close> of the handlers:
  \<^verbatim>\<open>let toStatus = parseDropStatus(oId); if (!toStatus) toStatus = overIssue?.status ?? null;\<close>
  followed by \<^verbatim>\<open>if (!toStatus) return\<close> (\<open>None\<close> here).
\<close>

definition resolveToStatus :: "Issue option \<Rightarrow> string \<Rightarrow> string option" where
  "resolveToStatus overIssue oId =
     (let toStatus = parseDropStatus (Some oId);
          toStatus = (if truthy toStatus then toStatus else map_option status overIssue)
      in if truthy toStatus then toStatus else None)"

text \<open>
  The same-column branch of \<^verbatim>\<open>BoardPage.onDragEnd\<close> (the page that holds its own
  drag handlers). \<open>None\<close> is a return without a call of \<^verbatim>\<open>batchPatch.mutate\<close>.
\<close>

definition sameColumn_BoardPage ::
  "Issue list \<Rightarrow> string \<Rightarrow> Issue option \<Rightarrow> string \<Rightarrow> (string \<times> IssuePatch) list option" where
  "sameColumn_BoardPage scoped aId overIssue fromStatus =
     (case overIssue of
        None \<Rightarrow> None
      | Some ov \<Rightarrow>
          (let list = column scoped fromStatus;
               oldIndex = findIndex (\<lambda>x. id' x = aId) list;
               newIndex = findIndex (\<lambda>x. id' x = id' ov) list
           in if oldIndex < 0 \<or> newIndex < 0 \<or> oldIndex = newIndex then None
              else (let next = arrayMove list (nat oldIndex) (nat newIndex);
                        normalized = normalizeOrders next
                    in Some (map (\<lambda>it. (id' it, order_patch (order it))) normalized))))"

text \<open>
  The same-column branch of \<^verbatim>\<open>BoardColumns.onDragEnd\<close> (the component the routed page
  renders): a missing over-issue is a move to the last index.
\<close>

definition sameColumn_BoardColumns ::
  "Issue list \<Rightarrow> string \<Rightarrow> Issue option \<Rightarrow> (string \<times> IssuePatch) list option" where
  "sameColumn_BoardColumns fromList aId overIssue =
     (let list = fromList;
          oldIndex = findIndex (\<lambda>x. id' x = aId) list
      in if oldIndex < 0 then None
         else (let newIndex = (case overIssue of
                                 Some ov \<Rightarrow> findIndex (\<lambda>x. id' x = id' ov) list
                               | None \<Rightarrow> int (length list) - 1)
               in if newIndex < 0 \<or> oldIndex = newIndex then None
                  else (let next = arrayMove list (nat oldIndex) (nat newIndex);
                            normalized = normalizeOrders next
                        in Some (map (\<lambda>it. (id' it, order_patch (order it))) normalized))))"

text \<open>
  The cross-column branch, the same text in both handlers. \<^verbatim>\<open>toNext.splice(insertAt, 0, moved)\<close>
  is \<open>take insertAt toNext @ [moved] @ drop insertAt toNext\<close>.
\<close>

definition crossColumn ::
  "Issue list \<Rightarrow> Issue list \<Rightarrow> string \<Rightarrow> Issue \<Rightarrow> Issue option \<Rightarrow> string
     \<Rightarrow> (string \<times> IssuePatch) list option" where
  "crossColumn fromList toList aId active overIssue toStatus =
     (let fromWithout = filter (\<lambda>x. id' x \<noteq> aId) fromList;
          moved = active\<lparr>status := toStatus\<rparr>;
          toNext = filter (\<lambda>x. id' x \<noteq> aId) toList;
          insertAt = (case overIssue of
                        Some ov \<Rightarrow> max 0 (findIndex (\<lambda>x. id' x = id' ov) toNext)
                      | None \<Rightarrow> int (length toNext));
          toNext = (if 0 \<le> insertAt \<and> insertAt \<le> int (length toNext)
                    then take (nat insertAt) toNext @ [moved] @ drop (nat insertAt) toNext
                    else toNext @ [moved]);
          normalizedTo = normalizeOrders toNext;
          normalizedFrom = normalizeOrders fromWithout
      in Some (map (\<lambda>it. (id' it, status_order_patch (status it) (order it))) normalizedTo
               @ map (\<lambda>it. (id' it, order_patch (order it))) normalizedFrom))"

text \<open>
  \<^verbatim>\<open>BoardPage.onDragEnd\<close> of the page that sends its patches with
  \<^verbatim>\<open>batchPatch.mutate\<close>: \<open>over\<close> is \<^verbatim>\<open>e.over?.id\<close> (\<open>None\<close> when the drag ended over
  nothing), \<open>aId\<close> the dragged issue's id, \<open>issues\<close> the cached list of the route.
\<close>

definition onDragEnd_BoardPage ::
  "view \<Rightarrow> Issue list \<Rightarrow> string \<Rightarrow> string option \<Rightarrow> (string \<times> IssuePatch) list option" where
  "onDragEnd_BoardPage v issues aId over =
     (let scoped = scopedIssues issues
      in (case (if truthy over then over else None) of
            None \<Rightarrow> None
          | Some oId \<Rightarrow>
              (case find (\<lambda>x. id' x = aId) scoped of
                 None \<Rightarrow> None
               | Some active \<Rightarrow>
                   (let overIssue = find (\<lambda>x. id' x = oId) scoped
                    in (case resolveToStatus overIssue oId of
                          None \<Rightarrow> None
                        | Some toStatus \<Rightarrow>
                            if \<not> canShowStatus v toStatus then None
                            else (let fromStatus = status active;
                                      fromList = column scoped fromStatus;
                                      toList = column scoped toStatus
                                  in if fromStatus = toStatus
                                     then sameColumn_BoardPage scoped aId overIssue fromStatus
                                     else crossColumn fromList toList aId active overIssue
                                            toStatus))))))"

text \<open>
  \<^verbatim>\<open>BoardColumns.onDragEnd\<close>: as above, with the fallback
  \<^verbatim>\<open>const oId = rawOverId ?? lastOverIdRef.current\<close>. Its helpers
  \<^verbatim>\<open>parseDropStatus\<close>, \<^verbatim>\<open>normalizeOrders\<close> and \<^verbatim>\<open>canShowStatus(view, status)\<close> are imported
  from a module that is not among the sources; the definitions of the same names in
  \<^verbatim>\<open>BoardPage\<close> stand for them.
\<close>

definition onDragEnd_BoardColumns ::
  "view \<Rightarrow> Issue list \<Rightarrow> string option \<Rightarrow> string \<Rightarrow> string option
     \<Rightarrow> (string \<times> IssuePatch) list option" where
  "onDragEnd_BoardColumns v issues lastOverId aId over =
     (let scoped = scopedIssues issues;
          rawOverId = (if truthy over then over else None)
      in (case (case rawOverId of None \<Rightarrow> lastOverId | Some r \<Rightarrow> Some r) of
            None \<Rightarrow> None
          | Some oId \<Rightarrow>
              if oId = [] then None
              else
              (case find (\<lambda>x. id' x = aId) scoped of
                 None \<Rightarrow> None
               | Some active \<Rightarrow>
                   (let overIssue = find (\<lambda>x. id' x = oId) scoped
                    in (case resolveToStatus overIssue oId of
                          None \<Rightarrow> None
                        | Some toStatus \<Rightarrow>
                            if \<not> canShowStatus v toStatus then None
                            else (let fromStatus = status active;
                                      fromList = column scoped fromStatus;
                                      toList = column scoped toStatus
                                  in if fromStatus = toStatus
                                     then sameColumn_BoardColumns fromList aId overIssue
                                     else crossColumn fromList toList aId active overIssue
                                            toStatus))))))"








section \<open>Optimistic sync controller (client)\<close>

text \<open>
  The query cache entry of one key: \<open>None\<close> while nothing is cached.
  \<^verbatim>\<open>qc.getQueryData<Issue[]>(key) ?? []\<close> is \<open>cached\<close>.
\<close>

definition cached :: "Issue list option \<Rightarrow> Issue list" where
  "cached c = field_or c []"

text \<open>
  \<^verbatim>\<open>new Map(changes.map((c) => [c.id, c.patch]))\<close>: a later entry of the same id
  overwrites an earlier one, so a lookup finds the last.
\<close>

definition byId :: "(string \<times> IssuePatch) list \<Rightarrow> string \<Rightarrow> IssuePatch option" where
  "byId changes = map_of (rev changes)"

text \<open>
  \<^verbatim>\<open>useBatchPatchIssues\<close>, \<^verbatim>\<open>onMutate\<close>: the new cache entry and the context
  \<^verbatim>\<open>{ prev }\<close>; \<^verbatim>\<open>onError\<close> writes \<^verbatim>\<open>ctx.prev\<close> back when there is a context.
\<close>

definition batch_onMutate ::
  "Issue list option \<Rightarrow> (string \<times> IssuePatch) list \<Rightarrow> Issue list option \<times> Issue list" where
  "batch_onMutate c changes =
     (let prev = cached c;
          next = map (\<lambda>it. case byId changes (id' it) of
                             Some patch \<Rightarrow> applyPatch it patch
                           | None \<Rightarrow> it) prev
      in (Some next, prev))"

definition batch_onError :: "Issue list option \<Rightarrow> Issue list option \<Rightarrow> Issue list option" where
  "batch_onError c ctx = (case ctx of Some prev \<Rightarrow> Some prev | None \<Rightarrow> c)"

text \<open>\<^verbatim>\<open>CreateIssueInput = Omit<Issue, "id" | "key">\<close>.\<close>

record CreateIssueInput =
  c_boardId :: string
  c_sprintId :: "string option"
  c_title :: string
  c_description :: string
  c_status :: string
  c_order :: int
  c_assigneeId :: "string option"
  c_watcherIds :: "string list"

text \<open>
  \<^verbatim>\<open>useCreateIssue\<close>. \<^verbatim>\<open>onMutate\<close> appends the optimistic entry
  \<^verbatim>\<open>{ ...issue, id: tempId, key: "TMP" }\<close> with \<^verbatim>\<open>tempId = `tmp_${crypto.randomUUID()}`\<close>;
  the random UUID is the parameter \<open>uuid\<close>. The context is \<^verbatim>\<open>{ prev, tempId }\<close>.
\<close>

definition create_onMutate ::
  "Issue list option \<Rightarrow> CreateIssueInput \<Rightarrow> string
     \<Rightarrow> Issue list option \<times> (Issue list \<times> string)" where
  "create_onMutate c issue uuid =
     (let prev = cached c;
          tempId = ''tmp_'' @ uuid;
          optimistic = \<lparr> id' = tempId, key = ''TMP'', boardId = c_boardId issue,
                         sprintId = c_sprintId issue, title = c_title issue,
                         description = c_description issue, status = c_status issue,
                         order = c_order issue, assigneeId = c_assigneeId issue,
                         watcherIds = c_watcherIds issue \<rparr>
      in (Some (prev @ [optimistic]), (prev, tempId)))"

definition create_onError ::
  "Issue list option \<Rightarrow> (Issue list \<times> string) option \<Rightarrow> Issue list option" where
  "create_onError c ctx = (case ctx of Some (prev, tempId) \<Rightarrow> Some prev | None \<Rightarrow> c)"

text \<open>
  \<^verbatim>\<open>onSuccess\<close> reads the cache again and maps over it:
  \<^verbatim>\<open>prev.map((it) => (it.id === ctx?.tempId ? created : it))\<close>.
\<close>

definition create_onSuccess ::
  "Issue list option \<Rightarrow> Issue \<Rightarrow> (Issue list \<times> string) option \<Rightarrow> Issue list option" where
  "create_onSuccess c created ctx =
     (let prev = cached c
      in Some (map (\<lambda>it. if Some (id' it) = map_option snd ctx then created else it) prev))"

section \<open>Debounced cancellable search controller (client)\<close>

text \<open>
  A search request: the query it was dispatched for, the value of \<^verbatim>\<open>isNewQuery\<close> its
  handlers closed over (the multi-select hook only), whether its \<^verbatim>\<open>AbortController\<close> has
  been aborted, and whether its promise has settled (its handlers have run).
\<close>

record request =
  rq_query :: string
  rq_isNewQuery :: bool
  rq_aborted :: bool
  rq_settled :: bool

text \<open>How the promise returned by \<^verbatim>\<open>search(q, signal)\<close> settles.\<close>

datatype 'a response = Results "'a list" | Rejected | AbortError

text \<open>
  The state of one picker instance: the React state (\<^verbatim>\<open>open\<close>, \<^verbatim>\<open>input\<close> or \<^verbatim>\<open>query\<close>,
  \<^verbatim>\<open>items\<close>, \<^verbatim>\<open>loading\<close>, \<^verbatim>\<open>error\<close>, \<^verbatim>\<open>activeIndex\<close>), the debounced value, the
  controllers created so far with their requests (a controller is its index),
  \<^verbatim>\<open>abortRef.current\<close>, the controller the last effect run returned a cleanup for, and
  \<^verbatim>\<open>lastQueryRef.current\<close>.
\<close>

record 'a picker =
  pk_open :: bool
  pk_input :: string
  pk_debounced :: string
  pk_items :: "'a list"
  pk_loading :: bool
  pk_error :: "string option"
  pk_activeIndex :: nat
  pk_requests :: "request list"
  pk_abortRef :: "nat option"
  pk_cleanup :: "nat option"
  pk_lastQuery :: string

definition init_picker :: "'a picker" where
  "init_picker =
     \<lparr> pk_open = False, pk_input = [], pk_debounced = [], pk_items = [],
       pk_loading = False, pk_error = None, pk_activeIndex = 0, pk_requests = [],
       pk_abortRef = None, pk_cleanup = None, pk_lastQuery = [] \<rparr>"

text \<open>
  \<^verbatim>\<open>String.prototype.trim\<close> on ASCII text: the six ASCII white-space characters are
  stripped, the other white space and line terminators of Unicode are not modelled.
\<close>

definition is_space :: "char \<Rightarrow> bool" where
  "is_space c = (c \<in> set [CHR '' '', CHR 0x09, CHR 0x0A, CHR 0x0B, CHR 0x0C, CHR 0x0D])"

definition trim :: "string \<Rightarrow> string" where
  "trim s = rev (dropWhile is_space (rev (dropWhile is_space s)))"

text \<open>\<^verbatim>\<open>ref?.abort()\<close>: aborting is idempotent and never undone.\<close>

definition abort_ctl :: "nat option \<Rightarrow> request list \<Rightarrow> request list" where
  "abort_ctl r rs =
     (case r of
        None \<Rightarrow> rs
      | Some k \<Rightarrow> if k < length rs then rs[k := (rs ! k)\<lparr>rq_aborted := True\<rparr>] else rs)"

text \<open>The cleanup of the previous effect run, \<^verbatim>\<open>() => controller.abort()\<close>, if it returned one.\<close>

definition run_cleanup :: "'a picker \<Rightarrow> 'a picker" where
  "run_cleanup s = s\<lparr>pk_requests := abort_ctl (pk_cleanup s) (pk_requests s), pk_cleanup := None\<rparr>"

text \<open>
  The body of the search effect of \<^verbatim>\<open>useEntityMultiPicker\<close>, deps
  \<^verbatim>\<open>[debounced, minChars, open, search]\<close>. The new controller is the next index.
\<close>

definition effect_multi :: "nat \<Rightarrow> 'a picker \<Rightarrow> 'a picker" where
  "effect_multi minChars s =
     (if \<not> pk_open s then s
      else (let q = trim (pk_debounced s)
            in if length q < minChars
               then s\<lparr>pk_requests := abort_ctl (pk_abortRef s) (pk_requests s),
                      pk_items := [], pk_error := None, pk_loading := False,
                      pk_activeIndex := 0, pk_lastQuery := q\<rparr>
               else (let rs = abort_ctl (pk_abortRef s) (pk_requests s);
                         controller = length rs;
                         isNewQuery = (q \<noteq> pk_lastQuery s)
                     in s\<lparr>pk_requests := rs @ [\<lparr>rq_query = q, rq_isNewQuery = isNewQuery,
                                                  rq_aborted = False, rq_settled = False\<rparr>],
                           pk_abortRef := Some controller, pk_lastQuery := q,
                           pk_loading := True, pk_error := None,
                           pk_cleanup := Some controller\<rparr>)))"

text \<open>The body of the search effect of \<^verbatim>\<open>EntityPicker\<close>: no \<^verbatim>\<open>lastQueryRef\<close>.\<close>

definition effect_single :: "nat \<Rightarrow> 'a picker \<Rightarrow> 'a picker" where
  "effect_single minChars s =
     (if \<not> pk_open s then s
      else (let q = trim (pk_debounced s)
            in if length q < minChars
               then s\<lparr>pk_requests := abort_ctl (pk_abortRef s) (pk_requests s),
                      pk_items := [], pk_error := None, pk_loading := False,
                      pk_activeIndex := 0\<rparr>
               else (let rs = abort_ctl (pk_abortRef s) (pk_requests s);
                         controller = length rs
                     in s\<lparr>pk_requests := rs @ [\<lparr>rq_query = q, rq_isNewQuery = True,
                                                  rq_aborted = False, rq_settled = False\<rparr>],
                           pk_abortRef := Some controller,
                           pk_loading := True, pk_error := None,
                           pk_cleanup := Some controller\<rparr>)))"

text \<open>
  The handlers of request \<open>k\<close> in \<^verbatim>\<open>useEntityMultiPicker\<close>:
  \<^verbatim>\<open>.then\<close> (results), \<^verbatim>\<open>.catch\<close> (a rejection, or one with an \<^verbatim>\<open>AbortError\<close>) and
  \<^verbatim>\<open>.finally\<close>; each looks at \<^verbatim>\<open>controller.signal.aborted\<close> first. A promise settles once.
\<close>

definition settle_multi :: "'a picker \<Rightarrow> nat \<Rightarrow> 'a response \<Rightarrow> 'a picker" where
  "settle_multi s k r =
     (if k < length (pk_requests s) \<and> \<not> rq_settled (pk_requests s ! k)
      then (let rq = pk_requests s ! k;
                s1 = s\<lparr>pk_requests := (pk_requests s)[k := rq\<lparr>rq_settled := True\<rparr>]\<rparr>
            in if rq_aborted rq then s1
               else (case r of
                       Results res \<Rightarrow>
                         s1\<lparr>pk_items := res,
                            pk_activeIndex := (if rq_isNewQuery rq then 0 else pk_activeIndex s1),
                            pk_loading := False\<rparr>
                     | Rejected \<Rightarrow>
                         s1\<lparr>pk_error := Some ''Failed to load results'', pk_items := [],
                            pk_activeIndex := 0, pk_loading := False\<rparr>
                     | AbortError \<Rightarrow> s1\<lparr>pk_loading := False\<rparr>))
      else s)"

text \<open>The handlers of request \<open>k\<close> in \<^verbatim>\<open>EntityPicker\<close>.\<close>

definition settle_single :: "'a picker \<Rightarrow> nat \<Rightarrow> 'a response \<Rightarrow> 'a picker" where
  "settle_single s k r =
     (if k < length (pk_requests s) \<and> \<not> rq_settled (pk_requests s ! k)
      then (let rq = pk_requests s ! k;
                s1 = s\<lparr>pk_requests := (pk_requests s)[k := rq\<lparr>rq_settled := True\<rparr>]\<rparr>
            in if rq_aborted rq then s1
               else (case r of
                       Results res \<Rightarrow>
                         s1\<lparr>pk_items := res, pk_activeIndex := 0, pk_loading := False\<rparr>
                     | Rejected \<Rightarrow>
                         s1\<lparr>pk_error := Some ''Failed to load results'', pk_items := [],
                            pk_loading := False\<rparr>
                     | AbortError \<Rightarrow> s1\<lparr>pk_loading := False\<rparr>))
      else s)"

text \<open>
  Modelled from the spec: \<^verbatim>\<open>useDebouncedValue\<close> is not among the sources. The spec's
  debounce contract: "the effective query used to trigger search is the input value after
  it has remained unchanged for a configurable delay; every keystroke before the delay
  elapses restarts the delay". Time is the order of events: a keystroke changes the input
  only, and the event \<open>DebounceElapsed\<close> (the input has been stable for the delay) copies
  the input to the debounced value.

  The events of the multi-select hook: its exposed setters \<^verbatim>\<open>setOpen\<close>, \<^verbatim>\<open>setInput\<close>,
  \<^verbatim>\<open>setActiveIndex\<close> (every move of the highlight goes through it) and \<^verbatim>\<open>resetResults\<close>,
  the debounce, a change of the \<^verbatim>\<open>search\<close> or \<^verbatim>\<open>minChars\<close> dependency, and the settling of
  request \<open>k\<close>. React runs the effect again, cleanup first, when a dependency has changed.
\<close>

datatype 'a multi_event =
    M_SetOpen bool
  | M_SetInput string
  | M_SetActiveIndex nat
  | M_ResetResults
  | M_DebounceElapsed
  | M_DepsChanged
  | M_Settle nat "'a response"

fun step_multi :: "nat \<Rightarrow> 'a picker \<Rightarrow> 'a multi_event \<Rightarrow> 'a picker" where
  "step_multi minChars s (M_SetOpen b) =
     (if pk_open s = b then s else effect_multi minChars (run_cleanup (s\<lparr>pk_open := b\<rparr>)))"
| "step_multi minChars s (M_SetInput v) = s\<lparr>pk_input := v\<rparr>"
| "step_multi minChars s (M_SetActiveIndex n) = s\<lparr>pk_activeIndex := n\<rparr>"
| "step_multi minChars s M_ResetResults =
     s\<lparr>pk_requests := abort_ctl (pk_abortRef s) (pk_requests s), pk_items := [],
       pk_error := None, pk_loading := False, pk_activeIndex := 0\<rparr>"
| "step_multi minChars s M_DebounceElapsed =
     (if pk_debounced s = pk_input s then s
      else effect_multi minChars (run_cleanup (s\<lparr>pk_debounced := pk_input s\<rparr>)))"
| "step_multi minChars s M_DepsChanged = effect_multi minChars (run_cleanup s)"
| "step_multi minChars s (M_Settle k r) = settle_multi s k r"

text \<open>
  The events of \<^verbatim>\<open>EntityPicker\<close>: focus (\<^verbatim>\<open>setOpen(true)\<close>), a change of the input
  (\<^verbatim>\<open>setOpen(true); setQuery(v)\<close>), \<^verbatim>\<open>close()\<close> (Escape, outside click, select, clear), the
  arrow keys, hovering option \<open>n\<close>, and the debounce, dependency and settling events.
\<close>

datatype 'a single_event =
    S_Focus
  | S_Change string
  | S_Close
  | S_ArrowDown
  | S_ArrowUp
  | S_MouseEnter nat
  | S_DebounceElapsed
  | S_DepsChanged
  | S_Settle nat "'a response"

definition close_single :: "nat \<Rightarrow> 'a picker \<Rightarrow> 'a picker" where
  "close_single minChars s =
     (let s1 = s\<lparr>pk_open := False, pk_input := [], pk_items := [], pk_error := None,
                 pk_loading := False, pk_activeIndex := 0,
                 pk_requests := abort_ctl (pk_abortRef s) (pk_requests s)\<rparr>
      in if pk_open s then effect_single minChars (run_cleanup s1) else s1)"

fun step_single :: "nat \<Rightarrow> 'a picker \<Rightarrow> 'a single_event \<Rightarrow> 'a picker" where
  "step_single minChars s S_Focus =
     (if pk_open s then s else effect_single minChars (run_cleanup (s\<lparr>pk_open := True\<rparr>)))"
| "step_single minChars s (S_Change v) =
     (if pk_open s then s\<lparr>pk_input := v\<rparr>
      else effect_single minChars (run_cleanup (s\<lparr>pk_open := True, pk_input := v\<rparr>)))"
| "step_single minChars s S_Close = close_single minChars s"
| "step_single minChars s S_ArrowDown =
     (if \<not> pk_open s then effect_single minChars (run_cleanup (s\<lparr>pk_open := True\<rparr>))
      else s\<lparr>pk_activeIndex := min (pk_activeIndex s + 1) (length (pk_items s) - 1)\<rparr>)"
| "step_single minChars s S_ArrowUp =
     (if \<not> pk_open s then s else s\<lparr>pk_activeIndex := pk_activeIndex s - 1\<rparr>)"
| "step_single minChars s (S_MouseEnter n) = s\<lparr>pk_activeIndex := n\<rparr>"
| "step_single minChars s S_DebounceElapsed =
     (if pk_debounced s = pk_input s then s
      else effect_single minChars (run_cleanup (s\<lparr>pk_debounced := pk_input s\<rparr>)))"
| "step_single minChars s S_DepsChanged = effect_single minChars (run_cleanup s)"
| "step_single minChars s (S_Settle k r) = settle_single s k r"

text \<open>A run of events from a state; the requests that are outstanding (neither cancelled nor settled).\<close>

definition run_multi :: "nat \<Rightarrow> 'a picker \<Rightarrow> 'a multi_event list \<Rightarrow> 'a picker" where
  "run_multi minChars s evs = foldl (step_multi minChars) s evs"

definition run_single :: "nat \<Rightarrow> 'a picker \<Rightarrow> 'a single_event list \<Rightarrow> 'a picker" where
  "run_single minChars s evs = foldl (step_single minChars) s evs"

definition outstanding :: "'a picker \<Rightarrow> request list" where
  "outstanding s = filter (\<lambda>r. \<not> rq_aborted r \<and> \<not> rq_settled r) (pk_requests s)"

text \<open>
  The cancellation discipline as a predicate on states: every request but the last
  created one is cancelled, and \<^verbatim>\<open>abortRef.current\<close> is the last created controller.
\<close>

definition picker_inv :: "'a picker \<Rightarrow> bool" where
  "picker_inv s =
     (list_all rq_aborted (butlast (pk_requests s))
      \<and> pk_abortRef s = (if pk_requests s = [] then None
                          else Some (length (pk_requests s) - 1)))"

section \<open>Example values\<close>

text \<open>Concrete issues and create inputs for the evaluations below.\<close>

definition mk_issue :: "string \<Rightarrow> string \<Rightarrow> int \<Rightarrow> Issue" where
  "mk_issue i st n =
     \<lparr> id' = i, key = ''K'', boardId = ''b1'', sprintId = None, title = ''t'',
       description = [], status = st, order = n, assigneeId = None, watcherIds = [] \<rparr>"

definition mk_input :: "string \<Rightarrow> string \<Rightarrow> int \<Rightarrow> CreateIssueInput" where
  "mk_input t st n =
     \<lparr> c_boardId = ''b1'', c_sprintId = None, c_title = t, c_description = [],
       c_status = st, c_order = n, c_assigneeId = None, c_watcherIds = [] \<rparr>"

definition example_db :: "Issue list" where
  "example_db =
     [mk_issue ''i1'' ''backlog'' 1000,
      (mk_issue ''i2'' ''todo'' 1000)\<lparr>sprintId := Some ''s1''\<rparr>,
      (mk_issue ''i3'' ''todo'' 2000)\<lparr>sprintId := Some ''s1''\<rparr>]"

definition example_sprints :: "Sprint list" where
  "example_sprints =
     snd (createSprint_1
            (snd (createSprint_1
                    (snd (createSprint_1 [] ''s1'' ''b1'' ''Sprint 1'' (Some True)))
                    ''s2'' ''b2'' ''Sprint 1'' (Some True)))
            ''s3'' ''b2'' ''Sprint 2'' None)"


definition example_board :: "Issue list" where
  "example_board =
     [mk_issue ''X'' ''todo'' 1000, mk_issue ''Y'' ''todo'' 2000,
      mk_issue ''Z'' ''in_progress'' 1000]"

text \<open>
  The multi-select hook after \<^verbatim>\<open>jo\<close> was dispatched and then superseded by \<^verbatim>\<open>joh\<close>.
\<close>

definition superseded_state :: "string picker" where
  "superseded_state =
     run_multi 2 init_picker
       [M_SetOpen True, M_SetInput ''jo'', M_DebounceElapsed, M_SetInput ''joh'',
        M_DebounceElapsed]"

section \<open>Properties of the Order Normalizer\<close>

lemma map_order_enumerate:
  "map (\<lambda>(idx, it). f idx) (enumerate n xs) = map f [n..<n + length xs]"
proof -
  have "map (\<lambda>(idx, it). f idx) (enumerate n xs) = map (f \<circ> fst) (enumerate n xs)"
    by (simp add: case_prod_unfold comp_def)
  also have "\<dots> = map f (map fst (enumerate n xs))"
    by (simp only: map_map)
  also have "\<dots> = map f [n..<n + length xs]"
    by (simp only: map_fst_enumerate)
  finally show ?thesis .
qed

lemma map_item_enumerate:
  "map (\<lambda>(idx, it). g it) (enumerate n xs) = map g xs"
proof -
  have "map (\<lambda>(idx, it). g it) (enumerate n xs) = map (g \<circ> snd) (enumerate n xs)"
    by (simp add: case_prod_unfold comp_def)
  also have "\<dots> = map g (map snd (enumerate n xs))"
    by (simp only: map_map)
  also have "\<dots> = map g xs"
    by (simp only: map_snd_enumerate)
  finally show ?thesis .
qed

lemma normalizeOrders_orders:
  "map order (normalizeOrders xs) = map (\<lambda>i. (int i + 1) * 1000) [0..<length xs]"
proof -
  have "map order (normalizeOrders xs)
      = map (\<lambda>(idx, it). (int idx + 1) * 1000) (enumerate 0 xs)"
    by (simp add: normalizeOrders_def case_prod_unfold)
  then show ?thesis
    using map_order_enumerate [of "\<lambda>i. (int i + 1) * 1000" 0 xs] by simp
qed

lemma normalizeOrders_srv_orders:
  "map snd (normalizeOrders_srv xs) = map (\<lambda>i. (int i + 1) * 1000) [0..<length xs]"
proof -
  have "map snd (normalizeOrders_srv xs)
      = map (\<lambda>(idx, it). (int idx + 1) * 1000) (enumerate 0 xs)"
    by (simp add: normalizeOrders_srv_def ORDER_STEP_def case_prod_unfold)
  then show ?thesis
    using map_order_enumerate [of "\<lambda>i. (int i + 1) * 1000" 0 xs] by simp
qed

lemma normalizeOrders_ids: "map id' (normalizeOrders xs) = map id' xs"
proof -
  have "map id' (normalizeOrders xs) = map (\<lambda>(idx, it). id' it) (enumerate 0 xs)"
    by (simp add: normalizeOrders_def case_prod_unfold)
  then show ?thesis by (simp add: map_item_enumerate)
qed

lemma normalizeOrders_srv_ids: "map fst (normalizeOrders_srv xs) = map id' xs"
proof -
  have "map fst (normalizeOrders_srv xs) = map (\<lambda>(idx, it). id' it) (enumerate 0 xs)"
    by (simp add: normalizeOrders_srv_def case_prod_unfold)
  then show ?thesis by (simp add: map_item_enumerate)
qed

lemma normalizeOrders_length: "length (normalizeOrders xs) = length xs"
  by (simp add: normalizeOrders_def)

lemma normalizeOrders_srv_length: "length (normalizeOrders_srv xs) = length xs"
  by (simp add: normalizeOrders_srv_def)

lemma step_values_increasing:
  "sorted_wrt (<) (map (\<lambda>i. (int i + 1) * 1000) [0..<n])"
  by (simp add: sorted_wrt_map sorted_wrt_iff_nth_less)

lemma step_values_distinct:
  "distinct (map (\<lambda>i. (int i + 1) * 1000) [0..<n])"
  by (simp add: distinct_map inj_on_def)

text \<open>
  C1. For every input sequence of \<open>n\<close> issues both normalizers return \<open>n\<close> entries, in the
  input's order of identities, where the entry at 0-based position \<open>i\<close> carries the order
  value \<open>(i + 1) * 1000\<close>. The values are strictly increasing and pairwise distinct, and they
  are the same whatever order values the input items carried (here: after overwriting the
  input's order values by an arbitrary function \<open>f\<close> of the item).
\<close>

theorem normalizeOrders_dense:
  "length (normalizeOrders xs) = length xs
   \<and> map id' (normalizeOrders xs) = map id' xs
   \<and> map order (normalizeOrders xs) = map (\<lambda>i. (int i + 1) * 1000) [0..<length xs]
   \<and> sorted_wrt (<) (map order (normalizeOrders xs))
   \<and> distinct (map order (normalizeOrders xs))
   \<and> map order (normalizeOrders (map (\<lambda>x. x\<lparr>order := f x\<rparr>) xs)) = map order (normalizeOrders xs)
   \<and> length (normalizeOrders_srv xs) = length xs
   \<and> map fst (normalizeOrders_srv xs) = map id' xs
   \<and> map snd (normalizeOrders_srv xs) = map (\<lambda>i. (int i + 1) * 1000) [0..<length xs]
   \<and> sorted_wrt (<) (map snd (normalizeOrders_srv xs))
   \<and> distinct (map snd (normalizeOrders_srv xs))
   \<and> normalizeOrders_srv (map (\<lambda>x. x\<lparr>order := f x\<rparr>) xs) = normalizeOrders_srv xs"
proof -
  have srv_eq: "normalizeOrders_srv (map (\<lambda>x. x\<lparr>order := f x\<rparr>) xs) = normalizeOrders_srv xs"
  proof (rule nth_equalityI)
    show "length (normalizeOrders_srv (map (\<lambda>x. x\<lparr>order := f x\<rparr>) xs))
        = length (normalizeOrders_srv xs)"
      by (simp add: normalizeOrders_srv_length)
  next
    fix i
    assume "i < length (normalizeOrders_srv (map (\<lambda>x. x\<lparr>order := f x\<rparr>) xs))"
    then have "i < length xs" by (simp add: normalizeOrders_srv_length)
    then show "normalizeOrders_srv (map (\<lambda>x. x\<lparr>order := f x\<rparr>) xs) ! i
        = normalizeOrders_srv xs ! i"
      by (simp add: normalizeOrders_srv_def nth_enumerate_eq)
  qed
  show ?thesis
    by (simp only: normalizeOrders_length normalizeOrders_ids normalizeOrders_orders
        normalizeOrders_srv_length normalizeOrders_srv_ids normalizeOrders_srv_orders
        step_values_increasing step_values_distinct srv_eq length_map simp_thms)
qed

section \<open>Properties of the issue service\<close>

lemma patch_data_status:
  "p_sprintId patch = Some sp \<Longrightarrow>
   p_status (patch_data existing patch) =
     (if sp = None then Some IssueStatus_backlog
      else if status existing = IssueStatus_backlog then Some IssueStatus_todo
      else p_status patch)"
  by (simp add: patch_data_def Let_def no_patch_def split: option.splits)

lemma patch_data_sprintId:
  "p_sprintId patch = Some sp \<Longrightarrow> p_sprintId (patch_data existing patch) = Some sp"
  by (simp add: patch_data_def Let_def no_patch_def split: option.splits)

lemma buildBatchPatchData_sprintId:
  "p_sprintId patch = Some sp \<Longrightarrow> p_sprintId (buildBatchPatchData patch) = Some sp"
  by (simp add: buildBatchPatchData_def Let_def no_patch_def split: option.splits)

lemma buildBatchPatchData_status:
  "p_sprintId patch = Some sp \<Longrightarrow>
   p_status (buildBatchPatchData patch) =
     Some (if sp = None then IssueStatus_backlog else IssueStatus_todo)"
  by (simp add: buildBatchPatchData_def Let_def no_patch_def split: option.splits)

text \<open>
  What the two patch paths compute for a patch that names \<^verbatim>\<open>sprintId\<close> on a stored issue.
  With \<^verbatim>\<open>sprintId = null\<close> the resulting status is \<^verbatim>\<open>backlog\<close>. With a non-null sprint,
  \<^verbatim>\<open>IssuesService.patch\<close> sets \<^verbatim>\<open>todo\<close> when the stored status is \<^verbatim>\<open>backlog\<close>, also when the
  patch supplies a status; when the stored status is not \<^verbatim>\<open>backlog\<close> the supplied status is
  used if there is one and the stored status is kept otherwise. \<^verbatim>\<open>batchPatch\<close>, through
  \<^verbatim>\<open>buildBatchPatchData\<close>, sets \<^verbatim>\<open>todo\<close> for every non-null sprint, whatever the stored or
  the supplied status.
\<close>

lemma sprint_move_status_rules:
  assumes "find (\<lambda>x. id' x = i) db = Some existing"
    and "p_sprintId patch = Some sp"
  shows "(\<exists>u db'. IssuesService_patch db i patch = Inr (u, db')
            \<and> sprintId u = sp
            \<and> status u =
                (if sp = None then IssueStatus_backlog
                 else if status existing = IssueStatus_backlog then IssueStatus_todo
                 else field_or (p_status patch) (status existing)))
       \<and> (\<exists>u db'. batchPatch db [(i, patch)] = Inr ([u], db')
            \<and> sprintId u = sp
            \<and> status u = (if sp = None then IssueStatus_backlog else IssueStatus_todo))"
proof -
  have "status (applyPatch existing (patch_data existing patch)) =
          (if sp = None then IssueStatus_backlog
           else if status existing = IssueStatus_backlog then IssueStatus_todo
           else field_or (p_status patch) (status existing))"
    using patch_data_status [OF assms(2), of existing]
    by (simp add: applyPatch_def field_or_def)
  moreover have "sprintId (applyPatch existing (patch_data existing patch)) = sp"
    using patch_data_sprintId [OF assms(2), of existing]
    by (simp add: applyPatch_def field_or_def)
  ultimately have single: "\<exists>u db'. IssuesService_patch db i patch = Inr (u, db')
            \<and> sprintId u = sp
            \<and> status u =
                (if sp = None then IssueStatus_backlog
                 else if status existing = IssueStatus_backlog then IssueStatus_todo
                 else field_or (p_status patch) (status existing))"
    using assms(1) by (simp add: IssuesService_patch_def Let_def)
  have "status (applyPatch existing (buildBatchPatchData patch)) =
           (if sp = None then IssueStatus_backlog else IssueStatus_todo)"
    using buildBatchPatchData_status [OF assms(2)]
    by (simp add: applyPatch_def field_or_def)
  moreover have "sprintId (applyPatch existing (buildBatchPatchData patch)) = sp"
    using buildBatchPatchData_sprintId [OF assms(2)]
    by (simp add: applyPatch_def field_or_def)
  ultimately have batch: "\<exists>u db'. batchPatch db [(i, patch)] = Inr ([u], db')
            \<and> sprintId u = sp
            \<and> status u = (if sp = None then IssueStatus_backlog else IssueStatus_todo)"
    using assms(1) by (simp add: Let_def)
  from single batch show ?thesis ..
qed

lemma sprint_move_status_rules_example:
  "find (\<lambda>x. id' x = ''i1'') [mk_issue ''i1'' ''backlog'' 1000]
     = Some (mk_issue ''i1'' ''backlog'' 1000)
   \<and> (\<exists>u db'. IssuesService_patch [mk_issue ''i1'' ''backlog'' 1000] ''i1''
               (no_patch\<lparr>p_sprintId := Some (Some ''s1''), p_status := Some ''done''\<rparr>)
             = Inr (u, db')
          \<and> sprintId u = Some ''s1'' \<and> status u = ''todo'')
   \<and> (\<exists>u db'. batchPatch [mk_issue ''i1'' ''backlog'' 1000]
               [(''i1'', no_patch\<lparr>p_sprintId := Some (Some ''s1''), p_status := Some ''done''\<rparr>)]
             = Inr ([u], db')
          \<and> sprintId u = Some ''s1'' \<and> status u = ''todo'')"
proof -
  have f: "find (\<lambda>x. id' x = ''i1'') [mk_issue ''i1'' ''backlog'' 1000]
      = Some (mk_issue ''i1'' ''backlog'' 1000)"
    by (simp add: mk_issue_def)
  have p: "p_sprintId (no_patch\<lparr>p_sprintId := Some (Some ''s1''), p_status := Some ''done''\<rparr>)
      = Some (Some ''s1'')"
    by simp
  have st: "status (mk_issue ''i1'' ''backlog'' 1000) = IssueStatus_backlog"
    by (simp add: mk_issue_def IssueStatus_backlog_def)
  show ?thesis
    using sprint_move_status_rules [OF f p] f
    by (simp add: st) (simp add: IssueStatus_todo_def)
qed

text \<open>
  C4. The claim: a patch that sets \<^verbatim>\<open>sprintId\<close> to \<^verbatim>\<open>null\<close> gives status \<^verbatim>\<open>backlog\<close>; a
  backlog issue moved into a sprint gets \<^verbatim>\<open>todo\<close> unless the patch supplies a status, which
  is then used; an issue that is not in the backlog keeps its status when it is moved into
  a sprint without a status. The code departs from it on two inputs, and on each of them
  another path of the server does what the claim says.

  \<^item> \<^verbatim>\<open>IssuesService.patch\<close> on a backlog issue with \<^verbatim>\<open>{ sprintId: "s1", status: "in_progress" }\<close>
    stores \<^verbatim>\<open>todo\<close>: the sprint rule runs after the status was copied and overwrites it.
    \<^verbatim>\<open>BoardsService.moveIssue\<close> with the same sprint and status (\<^verbatim>\<open>body.status ?? default\<close>)
    stores \<^verbatim>\<open>in_progress\<close>.

  \<^item> \<^verbatim>\<open>batchPatch\<close> on a \<^verbatim>\<open>done\<close> issue with \<^verbatim>\<open>{ sprintId: "s1" }\<close> stores \<^verbatim>\<open>todo\<close>:
    \<^verbatim>\<open>buildBatchPatchData\<close> never reads the stored issue. \<^verbatim>\<open>IssuesService.patch\<close> with the same
    patch keeps \<^verbatim>\<open>done\<close>, through its guard \<^verbatim>\<open>existing.status === IssueStatus.backlog\<close>.
\<close>

theorem explicit_status_overridden:
  "IssuesService_patch [mk_issue ''i1'' ''backlog'' 1000] ''i1''
       (no_patch\<lparr>p_sprintId := Some (Some ''s1''), p_status := Some ''in_progress''\<rparr>)
     = Inr ((mk_issue ''i1'' ''backlog'' 1000)\<lparr>sprintId := Some ''s1'', status := ''todo''\<rparr>,
            [(mk_issue ''i1'' ''backlog'' 1000)\<lparr>sprintId := Some ''s1'', status := ''todo''\<rparr>])
   \<and> status ((mk_issue ''i1'' ''backlog'' 1000)\<lparr>sprintId := Some ''s1'', status := ''todo''\<rparr>)
       \<noteq> ''in_progress''
   \<and> moveIssue (\<lambda>_. 0) [mk_issue ''i1'' ''backlog'' 1000] ''b1'' ''i1''
       \<lparr>b_sprintId = Some ''s1'', b_status = Some ''in_progress'', b_order = None\<rparr>
     = Inr ([(mk_issue ''i1'' ''backlog'' 1000)
               \<lparr>sprintId := Some ''s1'', status := ''in_progress''\<rparr>],
            [(mk_issue ''i1'' ''backlog'' 1000)
               \<lparr>sprintId := Some ''s1'', status := ''in_progress''\<rparr>])
   \<and> batchPatch [mk_issue ''i2'' ''done'' 2000]
       [(''i2'', no_patch\<lparr>p_sprintId := Some (Some ''s1'')\<rparr>)]
     = Inr ([(mk_issue ''i2'' ''done'' 2000)\<lparr>sprintId := Some ''s1'', status := ''todo''\<rparr>],
            [(mk_issue ''i2'' ''done'' 2000)\<lparr>sprintId := Some ''s1'', status := ''todo''\<rparr>])
   \<and> status ((mk_issue ''i2'' ''done'' 2000)\<lparr>sprintId := Some ''s1'', status := ''todo''\<rparr>)
       \<noteq> status (mk_issue ''i2'' ''done'' 2000)
   \<and> IssuesService_patch [mk_issue ''i2'' ''done'' 2000] ''i2''
       (no_patch\<lparr>p_sprintId := Some (Some ''s1'')\<rparr>)
     = Inr ((mk_issue ''i2'' ''done'' 2000)\<lparr>sprintId := Some ''s1''\<rparr>,
            [(mk_issue ''i2'' ''done'' 2000)\<lparr>sprintId := Some ''s1''\<rparr>])"
proof -
  have single: "IssuesService_patch [mk_issue ''i1'' ''backlog'' 1000] ''i1''
       (no_patch\<lparr>p_sprintId := Some (Some ''s1''), p_status := Some ''in_progress''\<rparr>)
     = Inr ((mk_issue ''i1'' ''backlog'' 1000)\<lparr>sprintId := Some ''s1'', status := ''todo''\<rparr>,
            [(mk_issue ''i1'' ''backlog'' 1000)\<lparr>sprintId := Some ''s1'', status := ''todo''\<rparr>])"
    by (simp add: IssuesService_patch_def patch_data_def applyPatch_def
        update_where_id_def field_or_def mk_issue_def no_patch_def Let_def
        IssueStatus_backlog_def IssueStatus_todo_def)
  have differs: "status ((mk_issue ''i1'' ''backlog'' 1000)
            \<lparr>sprintId := Some ''s1'', status := ''todo''\<rparr>) \<noteq> ''in_progress''"
    by simp
  have move: "moveIssue (\<lambda>_. 0) [mk_issue ''i1'' ''backlog'' 1000] ''b1'' ''i1''
       \<lparr>b_sprintId = Some ''s1'', b_status = Some ''in_progress'', b_order = None\<rparr>
     = Inr ([(mk_issue ''i1'' ''backlog'' 1000)
               \<lparr>sprintId := Some ''s1'', status := ''in_progress''\<rparr>],
            [(mk_issue ''i1'' ''backlog'' 1000)
               \<lparr>sprintId := Some ''s1'', status := ''in_progress''\<rparr>])"
    by (simp add: moveIssue_def findMany_column_def findMany_scope_def normalizeOrders_srv_def
        ORDER_STEP_def update_where_id_def mk_issue_def Let_def)
  have batch: "batchPatch [mk_issue ''i2'' ''done'' 2000]
       [(''i2'', no_patch\<lparr>p_sprintId := Some (Some ''s1'')\<rparr>)]
     = Inr ([(mk_issue ''i2'' ''done'' 2000)\<lparr>sprintId := Some ''s1'', status := ''todo''\<rparr>],
            [(mk_issue ''i2'' ''done'' 2000)\<lparr>sprintId := Some ''s1'', status := ''todo''\<rparr>])"
    by (simp add: buildBatchPatchData_def applyPatch_def
        update_where_id_def field_or_def mk_issue_def no_patch_def Let_def
        IssueStatus_backlog_def IssueStatus_todo_def)
  have lost: "status ((mk_issue ''i2'' ''done'' 2000)
            \<lparr>sprintId := Some ''s1'', status := ''todo''\<rparr>) \<noteq> status (mk_issue ''i2'' ''done'' 2000)"
    by (simp add: mk_issue_def)
  have kept: "IssuesService_patch [mk_issue ''i2'' ''done'' 2000] ''i2''
       (no_patch\<lparr>p_sprintId := Some (Some ''s1'')\<rparr>)
     = Inr ((mk_issue ''i2'' ''done'' 2000)\<lparr>sprintId := Some ''s1''\<rparr>,
            [(mk_issue ''i2'' ''done'' 2000)\<lparr>sprintId := Some ''s1''\<rparr>])"
    by (simp add: IssuesService_patch_def patch_data_def applyPatch_def
        update_where_id_def field_or_def mk_issue_def no_patch_def Let_def
        IssueStatus_backlog_def IssueStatus_todo_def)
  show ?thesis
    using single differs move batch lost kept by blast
qed

section \<open>Properties of the optimistic sync controller\<close>

lemma map_replace_absent:
  "t \<notin> set (map id' xs) \<Longrightarrow> map (\<lambda>it. if id' it = t then y else it) xs = xs"
  by (induction xs) auto

text \<open>
  C5. Optimistic create, for a temporary id that no cached entry carries and a server id
  that is not the temporary id: right after \<^verbatim>\<open>onMutate\<close> the cache entry is the previous
  list plus one appended provisional entry whose id is \<^verbatim>\<open>tmp_\<close> followed by the UUID;
  \<^verbatim>\<open>onSuccess\<close> then leaves the previous list plus the server's entity in the provisional
  entry's place (same length, no entry with the temporary id left); \<^verbatim>\<open>onError\<close>,
  whatever the cache holds by then, writes back exactly the previous list.
\<close>

theorem optimistic_create_protocol:
  assumes fresh: "''tmp_'' @ uuid \<notin> set (map id' (cached c))"
    and server_id: "id' created \<noteq> ''tmp_'' @ uuid"
  shows "(\<exists>optimistic.
            fst (create_onMutate c issue uuid) = Some (cached c @ [optimistic])
          \<and> id' optimistic = ''tmp_'' @ uuid
          \<and> snd (create_onMutate c issue uuid) = (cached c, ''tmp_'' @ uuid))
       \<and> create_onSuccess (fst (create_onMutate c issue uuid)) created
            (Some (snd (create_onMutate c issue uuid))) = Some (cached c @ [created])
       \<and> filter (\<lambda>it. id' it = ''tmp_'' @ uuid) (cached c @ [created]) = []
       \<and> create_onError later (Some (snd (create_onMutate c issue uuid))) = Some (cached c)"
proof -
  define t where "t = ''tmp_'' @ uuid"
  have fresh': "t \<notin> set (map id' (cached c))" and server_id': "id' created \<noteq> t"
    using fresh server_id unfolding t_def by blast+
  have none: "filter (\<lambda>it. id' it = t) (cached c) = []"
    using fresh' by (induction "cached c") (auto simp: filter_empty_conv)
  have mutate: "create_onMutate c issue uuid =
      (Some (cached c @ [\<lparr> id' = t, key = ''TMP'', boardId = c_boardId issue,
                         sprintId = c_sprintId issue, title = c_title issue,
                         description = c_description issue, status = c_status issue,
                         order = c_order issue, assigneeId = c_assigneeId issue,
                         watcherIds = c_watcherIds issue \<rparr>]), (cached c, t))"
    by (simp only: create_onMutate_def Let_def t_def)
  have success: "create_onSuccess (fst (create_onMutate c issue uuid)) created
            (Some (snd (create_onMutate c issue uuid))) = Some (cached c @ [created])"
    using map_replace_absent [OF fresh', of created]
    by (simp add: mutate create_onSuccess_def Let_def cached_def field_or_def)
  have failure: "create_onError later (Some (snd (create_onMutate c issue uuid)))
      = Some (cached c)"
    by (simp add: mutate create_onError_def)
  have gone: "filter (\<lambda>it. id' it = t) (cached c @ [created]) = []"
    using none server_id' by simp
  show ?thesis
    unfolding t_def [symmetric]
    using success failure gone by (simp add: mutate)
qed

theorem optimistic_create_protocol_witness:
  "create_onSuccess (fst (create_onMutate (Some [mk_issue ''i1'' ''todo'' 1000]) (mk_input ''new'' ''todo'' 2000) ''u1''))
      (mk_issue ''i2'' ''todo'' 2000)
      (Some (snd (create_onMutate (Some [mk_issue ''i1'' ''todo'' 1000]) (mk_input ''new'' ''todo'' 2000) ''u1'')))
     = Some [mk_issue ''i1'' ''todo'' 1000, mk_issue ''i2'' ''todo'' 2000]
   \<and> create_onError (fst (create_onMutate (Some [mk_issue ''i1'' ''todo'' 1000]) (mk_input ''new'' ''todo'' 2000) ''u1''))
       (Some (snd (create_onMutate (Some [mk_issue ''i1'' ''todo'' 1000]) (mk_input ''new'' ''todo'' 2000) ''u1'')))
     = Some [mk_issue ''i1'' ''todo'' 1000]"
  using optimistic_create_protocol
    [where uuid = "''u1''" and c = "Some [mk_issue ''i1'' ''todo'' 1000]"
       and created = "mk_issue ''i2'' ''todo'' 2000" and issue = "mk_input ''new'' ''todo'' 2000"
       and later = "fst (create_onMutate (Some [mk_issue ''i1'' ''todo'' 1000])
                          (mk_input ''new'' ''todo'' 2000) ''u1'')"]
  by (simp add: cached_def field_or_def mk_issue_def)

lemma byId_absent: "i \<notin> fst ` set changes \<Longrightarrow> byId changes i = None"
  by (simp add: byId_def map_of_eq_None_iff)

lemma byId_last:
  "changes = cs1 @ (i, p) # cs2 \<Longrightarrow> i \<notin> fst ` set cs2 \<Longrightarrow> byId changes i = Some p"
proof -
  assume eq: "changes = cs1 @ (i, p) # cs2" and last: "i \<notin> fst ` set cs2"
  from last have "map_of (rev cs2) i = None"
    by (simp add: map_of_eq_None_iff)
  then show ?thesis
    by (simp add: byId_def eq map_add_def)
qed

lemma map_of_filter_keys:
  "map_of (filter (\<lambda>ch. fst ch \<in> S) ys) i = (if i \<in> S then map_of ys i else None)"
  by (induction ys) auto

lemma byId_filter:
  "byId (filter (\<lambda>ch. fst ch \<in> S) changes) i = (if i \<in> S then byId changes i else None)"
  by (simp add: byId_def rev_filter map_of_filter_keys)

lemma applyPatch_frame:
  "(p_id p = None \<longrightarrow> id' (applyPatch it p) = id' it)
   \<and> (p_key p = None \<longrightarrow> key (applyPatch it p) = key it)
   \<and> (p_boardId p = None \<longrightarrow> boardId (applyPatch it p) = boardId it)
   \<and> (p_sprintId p = None \<longrightarrow> sprintId (applyPatch it p) = sprintId it)
   \<and> (p_title p = None \<longrightarrow> title (applyPatch it p) = title it)
   \<and> (p_description p = None \<longrightarrow> description (applyPatch it p) = description it)
   \<and> (p_status p = None \<longrightarrow> status (applyPatch it p) = status it)
   \<and> (p_order p = None \<longrightarrow> order (applyPatch it p) = order it)
   \<and> (p_assigneeId p = None \<longrightarrow> assigneeId (applyPatch it p) = assigneeId it)
   \<and> (p_watcherIds p = None \<longrightarrow> watcherIds (applyPatch it p) = watcherIds it)"
  by (simp add: applyPatch_def field_or_def)

lemma batch_next_ids:
  assumes "\<forall>ch\<in>set changes. p_id (snd ch) = None"
  shows "map id' (map (\<lambda>it. case byId changes (id' it) of
                             Some patch \<Rightarrow> applyPatch it patch | None \<Rightarrow> it) xs) = map id' xs"
proof -
  have "id' (case byId changes (id' it) of Some patch \<Rightarrow> applyPatch it patch | None \<Rightarrow> it) = id' it"
    for it
  proof (cases "byId changes (id' it)")
    case None
    then show ?thesis by simp
  next
    case (Some p)
    then have "(id' it, p) \<in> set changes"
      by (auto simp: byId_def dest: map_of_SomeD)
    with assms have "p_id p = None" by force
    with Some show ?thesis by (simp add: applyPatch_def field_or_def)
  qed
  then show ?thesis by simp
qed

text \<open>
  C10 (amended). The optimistic cache write of a batch patch keeps the cached list's
  length and every entry's position. An entry whose id no change names is unchanged. An
  entry whose id some change names has the patch of the last such change merged into it
  in place (earlier changes of the same id are dropped), and every field that patch does
  not name is unchanged; the entry keeps its id unless the patch names \<^verbatim>\<open>id\<close>. A change
  whose id is absent from the cache has no effect.
\<close>

theorem batch_optimistic_write:
  "\<exists>nxt. batch_onMutate c changes = (Some nxt, cached c)
     \<and> length nxt = length (cached c)
     \<and> (\<forall>k<length nxt.
           (id' (cached c ! k) \<notin> fst ` set changes \<longrightarrow> nxt ! k = cached c ! k)
         \<and> (\<forall>cs1 p cs2. changes = cs1 @ (id' (cached c ! k), p) # cs2
                          \<and> id' (cached c ! k) \<notin> fst ` set cs2
               \<longrightarrow> nxt ! k = applyPatch (cached c ! k) p
                   \<and> (p_id p = None \<longrightarrow> id' (nxt ! k) = id' (cached c ! k))
                   \<and> (p_key p = None \<longrightarrow> key (nxt ! k) = key (cached c ! k))
                   \<and> (p_boardId p = None \<longrightarrow> boardId (nxt ! k) = boardId (cached c ! k))
                   \<and> (p_sprintId p = None \<longrightarrow> sprintId (nxt ! k) = sprintId (cached c ! k))
                   \<and> (p_title p = None \<longrightarrow> title (nxt ! k) = title (cached c ! k))
                   \<and> (p_description p = None
                        \<longrightarrow> description (nxt ! k) = description (cached c ! k))
                   \<and> (p_status p = None \<longrightarrow> status (nxt ! k) = status (cached c ! k))
                   \<and> (p_order p = None \<longrightarrow> order (nxt ! k) = order (cached c ! k))
                   \<and> (p_assigneeId p = None
                        \<longrightarrow> assigneeId (nxt ! k) = assigneeId (cached c ! k))
                   \<and> (p_watcherIds p = None
                        \<longrightarrow> watcherIds (nxt ! k) = watcherIds (cached c ! k))))
     \<and> ((\<forall>ch\<in>set changes. p_id (snd ch) = None) \<longrightarrow> map id' nxt = map id' (cached c))
     \<and> batch_onMutate c (filter (\<lambda>ch. fst ch \<in> set (map id' (cached c))) changes)
         = batch_onMutate c changes"
proof -
  define nxt where
    "nxt = map (\<lambda>it. case byId changes (id' it) of
                        Some patch \<Rightarrow> applyPatch it patch | None \<Rightarrow> it) (cached c)"
  have run: "batch_onMutate c changes = (Some nxt, cached c)"
    by (simp add: batch_onMutate_def Let_def nxt_def)
  have len: "length nxt = length (cached c)"
    by (simp add: nxt_def)
  have untouched: "nxt ! k = cached c ! k"
    if "k < length nxt" "id' (cached c ! k) \<notin> fst ` set changes" for k
    using that by (simp add: nxt_def byId_absent)
  have merged: "nxt ! k = applyPatch (cached c ! k) p"
    if "k < length nxt" "changes = cs1 @ (id' (cached c ! k), p) # cs2"
       "id' (cached c ! k) \<notin> fst ` set cs2" for k cs1 p cs2
    using that(1) byId_last [OF that(2) that(3)] by (simp add: nxt_def)
  have ids: "map id' nxt = map id' (cached c)" if "\<forall>ch\<in>set changes. p_id (snd ch) = None"
    unfolding nxt_def using batch_next_ids [OF that] .
  have restrict: "batch_onMutate c (filter (\<lambda>ch. fst ch \<in> set (map id' (cached c))) changes)
         = batch_onMutate c changes"
    by (simp add: batch_onMutate_def Let_def byId_filter cong: map_cong)
  show ?thesis
    apply (rule exI [of _ "nxt"])
    apply (intro conjI allI impI)
    subgoal by (rule run)
    subgoal by (rule len)
    subgoal for k by (rule untouched)
    subgoal for k cs1 p cs2 by (rule merged) auto
    subgoal for k cs1 p cs2 using merged [of k cs1 p cs2] applyPatch_frame [of p "cached c ! k"] by simp
    subgoal for k cs1 p cs2 using merged [of k cs1 p cs2] applyPatch_frame [of p "cached c ! k"] by simp
    subgoal for k cs1 p cs2 using merged [of k cs1 p cs2] applyPatch_frame [of p "cached c ! k"] by simp
    subgoal for k cs1 p cs2 using merged [of k cs1 p cs2] applyPatch_frame [of p "cached c ! k"] by simp
    subgoal for k cs1 p cs2 using merged [of k cs1 p cs2] applyPatch_frame [of p "cached c ! k"] by simp
    subgoal for k cs1 p cs2 using merged [of k cs1 p cs2] applyPatch_frame [of p "cached c ! k"] by simp
    subgoal for k cs1 p cs2 using merged [of k cs1 p cs2] applyPatch_frame [of p "cached c ! k"] by simp
    subgoal for k cs1 p cs2 using merged [of k cs1 p cs2] applyPatch_frame [of p "cached c ! k"] by simp
    subgoal for k cs1 p cs2 using merged [of k cs1 p cs2] applyPatch_frame [of p "cached c ! k"] by simp
    subgoal for k cs1 p cs2 using merged [of k cs1 p cs2] applyPatch_frame [of p "cached c ! k"] by simp
    subgoal by (rule ids)
    subgoal by (rule restrict)
    done
qed


theorem batch_optimistic_write_witness:
  "[(''i1'', no_patch\<lparr>p_status := Some ''done''\<rparr>), (''zz'', no_patch\<lparr>p_order := Some 7\<rparr>),
    (''i1'', no_patch\<lparr>p_order := Some 5\<rparr>)]
     = [(''i1'', no_patch\<lparr>p_status := Some ''done''\<rparr>), (''zz'', no_patch\<lparr>p_order := Some 7\<rparr>)]
       @ (id' (cached (Some [mk_issue ''i1'' ''todo'' 1000, mk_issue ''i2'' ''todo'' 2000]) ! 0),
          no_patch\<lparr>p_order := Some 5\<rparr>) # []
   \<and> id' (cached (Some [mk_issue ''i1'' ''todo'' 1000, mk_issue ''i2'' ''todo'' 2000]) ! 1)
       \<notin> fst ` set [(''i1'', no_patch\<lparr>p_status := Some ''done''\<rparr>),
                     (''zz'', no_patch\<lparr>p_order := Some 7\<rparr>),
                     (''i1'', no_patch\<lparr>p_order := Some 5\<rparr>)]
   \<and> batch_onMutate (Some [mk_issue ''i1'' ''todo'' 1000, mk_issue ''i2'' ''todo'' 2000])
       [(''i1'', no_patch\<lparr>p_status := Some ''done''\<rparr>), (''zz'', no_patch\<lparr>p_order := Some 7\<rparr>),
        (''i1'', no_patch\<lparr>p_order := Some 5\<rparr>)]
     = (Some [mk_issue ''i1'' ''todo'' 5, mk_issue ''i2'' ''todo'' 2000],
        [mk_issue ''i1'' ''todo'' 1000, mk_issue ''i2'' ''todo'' 2000])"
  using batch_optimistic_write
    [of "Some [mk_issue ''i1'' ''todo'' 1000, mk_issue ''i2'' ''todo'' 2000]"
        "[(''i1'', no_patch\<lparr>p_status := Some ''done''\<rparr>), (''zz'', no_patch\<lparr>p_order := Some 7\<rparr>),
          (''i1'', no_patch\<lparr>p_order := Some 5\<rparr>)]"]
  by (simp add: batch_onMutate_def byId_def cached_def field_or_def applyPatch_def
      mk_issue_def no_patch_def Let_def)

text \<open>
  The claim as stated fails: of two changes for the same cached id only the last is
  merged (the status of the first never reaches the entry), and a patch that names
  \<^verbatim>\<open>id\<close> changes the entry's identity.
\<close>

theorem batch_write_last_change_wins:
  "fst (batch_onMutate (Some [mk_issue ''i1'' ''todo'' 1000])
         [(''i1'', no_patch\<lparr>p_status := Some ''done''\<rparr>), (''i1'', no_patch\<lparr>p_order := Some 5\<rparr>)])
     = Some [mk_issue ''i1'' ''todo'' 5]
   \<and> status (mk_issue ''i1'' ''todo'' 5) \<noteq> ''done''
   \<and> fst (batch_onMutate (Some [mk_issue ''i1'' ''todo'' 1000])
         [(''i1'', no_patch\<lparr>p_id := Some ''i9''\<rparr>)])
     = Some [mk_issue ''i9'' ''todo'' 1000]
   \<and> id' (mk_issue ''i9'' ''todo'' 1000) \<noteq> id' (mk_issue ''i1'' ''todo'' 1000)"
  by (simp add: batch_onMutate_def byId_def cached_def field_or_def applyPatch_def
      mk_issue_def no_patch_def Let_def)

section \<open>Properties of the boards service\<close>

lemma find_unique_id:
  assumes "distinct (map id' db)" and "find (\<lambda>x. id' x = i) db = Some a"
    and "x \<in> set db" and "id' x = i"
  shows "x = a"
proof -
  from assms(2) have "a \<in> set db" and "id' a = i"
    by (auto simp: find_Some_iff)
  moreover from assms(1) have "inj_on id' (set db)"
    by (simp add: distinct_map)
  ultimately show ?thesis
    using assms(3,4) by (auto dest: inj_onD)
qed

lemma find_update_where_id:
  assumes "\<And>r. id' (f r) = id' r"
  shows "find (\<lambda>x. id' x = i) (update_where_id db j f)
       = map_option (\<lambda>r. if j = i then f r else r) (find (\<lambda>x. id' x = i) db)"
  using assms by (induction db) (auto simp: update_where_id_def)

lemma find_foldl_order_updates:
  assumes "\<forall>it\<in>set its. fst it \<noteq> i"
  shows "find (\<lambda>x. id' x = i)
           (foldl (\<lambda>d it. update_where_id d (fst it) (\<lambda>r. r\<lparr>order := snd it\<rparr>)) db its)
       = find (\<lambda>x. id' x = i) db"
  using assms
proof (induction its arbitrary: db)
  case Nil
  then show ?case by simp
next
  case (Cons it its)
  have "find (\<lambda>x. id' x = i) (update_where_id db (fst it) (\<lambda>r. r\<lparr>order := snd it\<rparr>))
      = find (\<lambda>x. id' x = i) db"
    using Cons.prems by (simp add: find_update_where_id option.map_ident)
  with Cons show ?case by simp
qed

lemma find_append_first_none:
  "find P xs = None \<Longrightarrow> find P (xs @ ys) = find P ys"
  by (induction xs) (auto split: if_splits)

lemma find_normalized_last:
  assumes "i \<notin> id' ` set ys" and "id' m = i"
  shows "find (\<lambda>x. fst x = i) (normalizeOrders_srv (ys @ [m]))
       = Some (i, (int (length ys) + 1) * 1000)"
proof -
  have split: "normalizeOrders_srv (ys @ [m])
      = normalizeOrders_srv ys @ [(id' m, (int (length ys) + 1) * 1000)]"
    by (simp add: normalizeOrders_srv_def enumerate_append_eq ORDER_STEP_def)
  have "fst ` set (normalizeOrders_srv ys) = id' ` set ys"
    using normalizeOrders_srv_ids [of ys] by (metis list.set_map)
  with assms(1) have "i \<notin> fst ` set (normalizeOrders_srv ys)"
    by simp
  then have "find (\<lambda>x. fst x = i) (normalizeOrders_srv ys) = None"
    by (force simp: find_None_iff)
  then show ?thesis
    using assms(2) by (simp add: split find_append_first_none)
qed


lemma column_members:
  "x \<in> set (findMany_column db b sp st)
     \<longleftrightarrow> x \<in> set db \<and> boardId x = b \<and> sprintId x = sp \<and> status x = st"
  by (auto simp: findMany_column_def)

lemma column_length:
  "length (findMany_column db b sp st)
     = length (filter (\<lambda>x. boardId x = b \<and> sprintId x = sp \<and> status x = st) db)"
  by (simp add: findMany_column_def)

text \<open>
  C9. A call of the server's \<^verbatim>\<open>moveIssue\<close> for a stored issue of the board whose
  destination (sprint, status) differs from its source succeeds and leaves the issue with
  the destination sprint and status and the order
  \<open>(destinationColumnSize + 1) * 1000\<close>, where the destination column is counted before
  the move; the issue is appended after the whole destination column. The \<^verbatim>\<open>order\<close> of the
  request body has no effect on the result. The table's ids are distinct (primary key).
\<close>

theorem moveIssue_appends_last:
  assumes pk: "distinct (map id' db)"
    and found: "find (\<lambda>x. id' x = i) db = Some issue"
    and board: "boardId issue = b"
    and dest: "toStatus = field_or (b_status body)
                 (if truthy (b_sprintId body) then IssueStatus_todo else IssueStatus_backlog)"
    and differs: "\<not> (sprintId issue = b_sprintId body \<and> status issue = toStatus)"
  shows "(\<exists>ret db'. moveIssue rank db b i body = Inr (ret, db')
            \<and> find (\<lambda>x. id' x = i) db'
                = Some (issue\<lparr>sprintId := b_sprintId body, status := toStatus,
                     order := (int (length (filter (\<lambda>x. boardId x = b
                                  \<and> sprintId x = b_sprintId body \<and> status x = toStatus) db)) + 1)
                              * 1000\<rparr>))
       \<and> moveIssue rank db b i (body\<lparr>b_order := anyOrder\<rparr>) = moveIssue rank db b i body"
proof -
  define toList where "toList = findMany_column db b (b_sprintId body) toStatus"
  define fromList where "fromList = findMany_column db b (sprintId issue) (status issue)"
  define n where "n = (int (length toList) + 1) * 1000"
  define moved where "moved = issue\<lparr>sprintId := b_sprintId body, status := toStatus\<rparr>"
  have id_issue: "id' issue = i"
    using found by (auto simp: find_Some_iff)
  have not_in_to: "i \<notin> id' ` set toList"
  proof
    assume "i \<in> id' ` set toList"
    then obtain x where x: "x \<in> set toList" "id' x = i" by auto
    then have "x \<in> set db" "sprintId x = b_sprintId body" "status x = toStatus"
      by (simp_all add: toList_def column_members)
    moreover have "x = issue"
      using find_unique_id [OF pk found \<open>x \<in> set db\<close> x(2)] .
    ultimately show False using differs by simp
  qed
  have me: "find (\<lambda>x. fst x = i) (normalizeOrders_srv (toList @ [moved])) = Some (i, n)"
    unfolding n_def by (rule find_normalized_last [OF not_in_to]) (simp add: moved_def id_issue)
  have from_ids: "\<forall>it\<in>set (normalizeOrders_srv (filter (\<lambda>x. id' x \<noteq> i) fromList)). fst it \<noteq> i"
  proof
    fix it
    assume "it \<in> set (normalizeOrders_srv (filter (\<lambda>x. id' x \<noteq> i) fromList))"
    then have "fst it \<in> set (map fst (normalizeOrders_srv (filter (\<lambda>x. id' x \<noteq> i) fromList)))"
      by simp
    then have "fst it \<in> set (map id' (filter (\<lambda>x. id' x \<noteq> i) fromList))"
      by (simp only: normalizeOrders_srv_ids)
    then show "fst it \<noteq> i" by auto
  qed
  have to_ids: "\<forall>it\<in>set (filter (\<lambda>it. fst it \<noteq> i) (normalizeOrders_srv (toList @ [moved]))). fst it \<noteq> i"
    by simp
  define db1 where "db1 = update_where_id db i
        (\<lambda>r. r\<lparr>sprintId := b_sprintId body, status := toStatus, order := n\<rparr>)"
  define db2 where "db2 = foldl (\<lambda>d it. update_where_id d (fst it) (\<lambda>r. r\<lparr>order := snd it\<rparr>))
        db1 (normalizeOrders_srv (filter (\<lambda>x. id' x \<noteq> i) fromList))"
  define db3 where "db3 = foldl (\<lambda>d it. update_where_id d (fst it) (\<lambda>r. r\<lparr>order := snd it\<rparr>))
        db2 (filter (\<lambda>it. fst it \<noteq> i) (normalizeOrders_srv (toList @ [moved])))"
  have f1: "find (\<lambda>x. id' x = i) db1
      = Some (issue\<lparr>sprintId := b_sprintId body, status := toStatus, order := n\<rparr>)"
    unfolding db1_def by (simp add: find_update_where_id found)
  have f3: "find (\<lambda>x. id' x = i) db3
      = Some (issue\<lparr>sprintId := b_sprintId body, status := toStatus, order := n\<rparr>)"
    unfolding db3_def db2_def
    by (simp only: find_foldl_order_updates [OF to_ids] find_foldl_order_updates [OF from_ids] f1)
  have st: "(case b_status body of Some s \<Rightarrow> s
             | None \<Rightarrow> if truthy (b_sprintId body) then IssueStatus_todo
                       else IssueStatus_backlog) = toStatus"
    by (simp add: dest field_or_def)
  have run: "moveIssue rank db b i body = Inr (findMany_scope rank db3 b (b_sprintId body), db3)"
    using differs
    by (auto simp add: moveIssue_def found board Let_def st
        me [unfolded toList_def moved_def] db3_def db2_def db1_def toList_def fromList_def
        moved_def)
  have n_eq: "n = (int (length (filter (\<lambda>x. boardId x = b
                 \<and> sprintId x = b_sprintId body \<and> status x = toStatus) db)) + 1) * 1000"
    by (simp add: n_def toList_def column_length)
  have ignore: "moveIssue rank db b i (body\<lparr>b_order := anyOrder\<rparr>) = moveIssue rank db b i body"
    by (cases "find (\<lambda>x. id' x = i) db") (simp_all add: moveIssue_def Let_def)
  show ?thesis
    using run f3 ignore by (simp add: n_eq)
qed


theorem moveIssue_appends_last_witness:
  "distinct (map id' example_db)
   \<and> find (\<lambda>x. id' x = ''i1'') example_db = Some (mk_issue ''i1'' ''backlog'' 1000)
   \<and> length (filter (\<lambda>x. boardId x = ''b1'' \<and> sprintId x = Some ''s1'' \<and> status x = ''todo'')
         example_db) = 2
   \<and> (\<exists>ret db'. moveIssue (\<lambda>s. 0) example_db ''b1'' ''i1''
                   \<lparr>b_sprintId = Some ''s1'', b_status = None, b_order = Some 5\<rparr> = Inr (ret, db')
          \<and> find (\<lambda>x. id' x = ''i1'') db'
              = Some ((mk_issue ''i1'' ''backlog'' 1000)
                       \<lparr>sprintId := Some ''s1'', status := ''todo'', order := 3000\<rparr>))"
proof -
  have d: "distinct (map id' example_db)"
    by (simp add: example_db_def mk_issue_def)
  have f: "find (\<lambda>x. id' x = ''i1'') example_db = Some (mk_issue ''i1'' ''backlog'' 1000)"
    by (simp add: example_db_def mk_issue_def)
  have b: "boardId (mk_issue ''i1'' ''backlog'' 1000) = ''b1''"
    by (simp add: mk_issue_def)
  have st: "''todo'' = field_or (b_status \<lparr>b_sprintId = Some ''s1'', b_status = None, b_order = Some 5\<rparr>)
       (if truthy (b_sprintId \<lparr>b_sprintId = Some ''s1'', b_status = None, b_order = Some 5\<rparr>)
        then IssueStatus_todo else IssueStatus_backlog)"
    by (simp add: field_or_def IssueStatus_todo_def)
  have df: "\<not> (sprintId (mk_issue ''i1'' ''backlog'' 1000)
                = b_sprintId \<lparr>b_sprintId = Some ''s1'', b_status = None, b_order = Some 5\<rparr>
              \<and> status (mk_issue ''i1'' ''backlog'' 1000) = ''todo'')"
    by (simp add: mk_issue_def)
  have n: "length (filter (\<lambda>x. boardId x = ''b1'' \<and> sprintId x = Some ''s1'' \<and> status x = ''todo'')
         example_db) = 2"
    by (simp add: example_db_def mk_issue_def)
  show ?thesis
    using moveIssue_appends_last [OF d f b st df, of "\<lambda>s. 0" "Some 5"] d f n
    by simp
qed

lemma one_active_per_board_iff:
  "one_active_per_board tbl \<longleftrightarrow> (\<forall>b. active_count tbl b \<le> 1)"
proof
  assume inv: "one_active_per_board tbl"
  show "\<forall>b. active_count tbl b \<le> 1"
  proof
    fix b
    show "active_count tbl b \<le> 1"
    proof (cases "b \<in> sp_boardId ` set tbl")
      case True
      with inv show ?thesis
        by (auto simp: one_active_per_board_def list_all_iff)
    next
      case False
      then have "filter (\<lambda>s. sp_boardId s = b \<and> sp_isActive s) tbl = []"
        by (auto simp: filter_empty_conv)
      then show ?thesis by (simp add: active_count_def)
    qed
  qed
next
  assume "\<forall>b. active_count tbl b \<le> 1"
  then show "one_active_per_board tbl"
    by (simp add: one_active_per_board_def list_all_iff)
qed

lemma active_count_deactivate_same: "active_count (deactivate_board tbl b) b = 0"
  by (auto simp: active_count_def deactivate_board_def filter_empty_conv)

lemma active_count_deactivate_other:
  "b' \<noteq> b \<Longrightarrow> active_count (deactivate_board tbl b) b' = active_count tbl b'"
  by (induction tbl) (auto simp: active_count_def deactivate_board_def)

lemma active_count_deactivate:
  "active_count (deactivate_board tbl b) b' = (if b' = b then 0 else active_count tbl b')"
  by (simp add: active_count_deactivate_same active_count_deactivate_other)

lemma deactivate_ids: "map sp_id (deactivate_board tbl b) = map sp_id tbl"
  by (simp add: deactivate_board_def)

lemma activate_absent:
  "sid \<notin> sp_id ` set tbl \<Longrightarrow> activate_sprint tbl sid = tbl"
  by (induction tbl) (auto simp: activate_sprint_def)

lemma active_count_activate:
  assumes "distinct (map sp_id tbl)" and "s \<in> set tbl" and "sp_id s = sid"
  shows "active_count (activate_sprint tbl sid) b'
       = active_count tbl b' + (if sp_boardId s = b' \<and> \<not> sp_isActive s then 1 else 0)"
  using assms
proof (induction tbl)
  case Nil
  then show ?case by simp
next
  case (Cons r tbl)
  show ?case
  proof (cases "r = s")
    case True
    with Cons.prems have "sid \<notin> sp_id ` set tbl" by auto
    then have "activate_sprint tbl sid = tbl" by (rule activate_absent)
    then have "activate_sprint (r # tbl) sid = r\<lparr>sp_isActive := True\<rparr> # tbl"
      using True Cons.prems(3) by (simp add: activate_sprint_def)
    then show ?thesis
      using True by (auto simp: active_count_def)
  next
    case False
    with Cons.prems have in_tl: "s \<in> set tbl" and ne: "sp_id r \<noteq> sid" by auto
    have "active_count (activate_sprint tbl sid) b'
       = active_count tbl b' + (if sp_boardId s = b' \<and> \<not> sp_isActive s then 1 else 0)"
      using Cons.IH Cons.prems in_tl by simp
    moreover have "activate_sprint (r # tbl) sid = r # activate_sprint tbl sid"
      using ne by (simp add: activate_sprint_def)
    ultimately show ?thesis
      by (auto simp: active_count_def)
  qed
qed


lemma deactivate_member:
  "s \<in> set tbl \<Longrightarrow> sp_boardId s = b \<Longrightarrow> s\<lparr>sp_isActive := False\<rparr> \<in> set (deactivate_board tbl b)"
proof (induction tbl)
  case Nil
  then show ?case by simp
next
  case (Cons r tbl)
  show ?case
  proof (cases "r = s")
    case True
    have "(if sp_boardId s = b \<and> sp_isActive s then s\<lparr>sp_isActive := False\<rparr> else s)
        = s\<lparr>sp_isActive := False\<rparr>"
      using Cons.prems(2) by (cases s) simp
    then show ?thesis
      using True by (simp add: deactivate_board_def)
  next
    case False
    with Cons show ?thesis by (simp add: deactivate_board_def)
  qed
qed

lemma find_by_id_not_none:
  "s \<in> set tbl \<Longrightarrow> sp_id s = sid \<Longrightarrow> find (\<lambda>s. sp_id s = sid) tbl \<noteq> None"
  by (auto simp: find_None_iff)

lemma setActiveSprint_2_exactly_one:
  assumes "distinct (map sp_id tbl)"
    and "setActiveSprint_2 tbl b sid = Inr (s, tbl')"
  shows "active_count tbl' b = 1
       \<and> (\<forall>b'. b' \<noteq> b \<longrightarrow> active_count tbl' b' = active_count tbl b')
       \<and> map sp_id tbl' = map sp_id tbl"
proof -
  from assms(2) obtain sprint where
    f: "find (\<lambda>s. sp_id s = sid \<and> sp_boardId s = b) tbl = Some sprint"
    by (cases "find (\<lambda>s. sp_id s = sid \<and> sp_boardId s = b) tbl")
       (simp_all add: setActiveSprint_2_def)
  then have sp: "sprint \<in> set tbl" "sp_id sprint = sid" "sp_boardId sprint = b"
    by (auto simp: find_Some_iff)
  define t1 where "t1 = deactivate_board tbl b"
  define sprint1 where "sprint1 = sprint\<lparr>sp_isActive := False\<rparr>"
  have in1: "sprint1 \<in> set t1"
    unfolding sprint1_def t1_def using sp(1,3) by (rule deactivate_member)
  have id1: "sp_id sprint1 = sid" "sp_boardId sprint1 = b" "\<not> sp_isActive sprint1"
    using sp by (simp_all add: sprint1_def)
  have d1: "distinct (map sp_id t1)"
    using assms(1) by (simp add: t1_def deactivate_ids)
  obtain s1 where f1: "find (\<lambda>s. sp_id s = sid) t1 = Some s1"
    using find_by_id_not_none [OF in1 id1(1)] by blast
  have "setActiveSprint_2 tbl b sid = Inr (s1\<lparr>sp_isActive := True\<rparr>, activate_sprint t1 sid)"
    using f1 by (simp add: setActiveSprint_2_def setActiveSprint_1_def f Let_def t1_def)
  with assms(2) have tbl': "tbl' = activate_sprint t1 sid"
    by simp
  have cnt: "active_count tbl' b' = active_count t1 b' + (if b = b' then 1 else 0)" for b'
    using active_count_activate [OF d1 in1 id1(1), of b'] id1(2,3) by (simp add: tbl')
  have ids: "map sp_id tbl' = map sp_id tbl"
    by (simp add: tbl' t1_def activate_sprint_def deactivate_board_def comp_def)
  have same: "active_count tbl' b = 1"
    using cnt [of b] by (simp add: t1_def active_count_deactivate_same)
  have other: "active_count tbl' b' = active_count tbl b'" if "b' \<noteq> b" for b'
    using cnt [of b'] that by (simp add: t1_def active_count_deactivate_other)
  show ?thesis
    using same other ids by blast
qed

lemma createSprint_1_counts:
  "active_count (snd (createSprint_1 tbl newId b nm a)) b'
     = (if b' = b \<and> a = Some True then 1 else active_count tbl b')"
proof -
  have "active_count (t @ [x]) b' = active_count t b' + (if sp_boardId x = b' \<and> sp_isActive x then 1 else 0)"
    for t x
    by (simp add: active_count_def)
  then show ?thesis
    by (simp add: createSprint_1_def Let_def active_count_deactivate)
qed

text \<open>
  The second text of the service keeps the invariant: from a table with distinct ids and
  at most one active sprint per board, \<open>createSprint\<close> and the checked
  \<open>setActiveSprint_2\<close> lead to such a table again, and an activation leaves exactly one
  active sprint on its board.
\<close>

lemma sprint_operations_keep_invariant:
  assumes "one_active_per_board tbl" and "distinct (map sp_id tbl)"
  shows "one_active_per_board (snd (createSprint_1 tbl newId b nm a))"
    and "createSprint_2 boards tbl newId b nm a = Inr (s, tbl') \<Longrightarrow> one_active_per_board tbl'"
    and "setActiveSprint_2 tbl b sid = Inr (s, tbl') \<Longrightarrow> one_active_per_board tbl'"
proof -
  from assms(1) have le: "active_count tbl b' \<le> 1" for b'
    by (simp add: one_active_per_board_iff)
  show c1: "one_active_per_board (snd (createSprint_1 tbl newId b nm a))"
    unfolding one_active_per_board_iff using le by (simp add: createSprint_1_counts)
  show "one_active_per_board tbl'" if "createSprint_2 boards tbl newId b nm a = Inr (s, tbl')"
    using that c1 by (auto simp: createSprint_2_def split: if_splits)
  show "one_active_per_board tbl'" if "setActiveSprint_2 tbl b sid = Inr (s, tbl')"
    unfolding one_active_per_board_iff
  proof
    fix b'
    show "active_count tbl' b' \<le> 1"
      using setActiveSprint_2_exactly_one [OF assms(2) that] le [of b'] by (cases "b' = b") auto
  qed
qed

text \<open>
  C6. The invariant "at most one active sprint per board" against the first text of
  \<^verbatim>\<open>setActiveSprint\<close>, which does not check that the sprint belongs to the board. The
  table is built by three \<^verbatim>\<open>createSprint\<close> calls: board \<^verbatim>\<open>b1\<close> with the active sprint
  \<^verbatim>\<open>s1\<close>, board \<^verbatim>\<open>b2\<close> with the active sprint \<^verbatim>\<open>s2\<close> and the inactive sprint \<^verbatim>\<open>s3\<close>.
  \<^verbatim>\<open>setActiveSprint("b1", "s3")\<close> deactivates \<^verbatim>\<open>s1\<close> and activates \<^verbatim>\<open>s3\<close>: board
  \<^verbatim>\<open>b2\<close> then has two active sprints (and \<^verbatim>\<open>b1\<close> none). The second text rejects the
  call.
\<close>

theorem setActiveSprint_1_foreign_sprint:
  "one_active_per_board example_sprints
   \<and> map sp_boardId example_sprints = [''b1'', ''b2'', ''b2'']
   \<and> map sp_isActive example_sprints = [True, True, False]
   \<and> map sp_isActive (snd (projr (setActiveSprint_1 example_sprints ''b1'' ''s3'')))
       = [False, True, True]
   \<and> active_count (snd (projr (setActiveSprint_1 example_sprints ''b1'' ''s3''))) ''b2'' = 2
   \<and> \<not> one_active_per_board (snd (projr (setActiveSprint_1 example_sprints ''b1'' ''s3'')))
   \<and> setActiveSprint_2 example_sprints ''b1'' ''s3'' = Inl NotFound"
  by (simp add: example_sprints_def createSprint_1_def setActiveSprint_1_def
      setActiveSprint_2_def deactivate_board_def activate_sprint_def
      one_active_per_board_def active_count_def Let_def)

section \<open>Properties of the reorder/move engine\<close>


lemma reorder_patches_shape:
  "map fst (reorder_patches list i j) = map id' (arrayMove list (nat i) (nat j))
   \<and> map (p_order \<circ> snd) (reorder_patches list i j)
       = map (\<lambda>k. Some ((int k + 1) * 1000)) [0..<length (arrayMove list (nat i) (nat j))]
   \<and> map (p_status \<circ> snd) (reorder_patches list i j)
       = replicate (length (arrayMove list (nat i) (nat j))) None"
proof -
  let ?n = "normalizeOrders (arrayMove list (nat i) (nat j))"
  have 1: "map fst (reorder_patches list i j) = map id' ?n"
    by (simp add: reorder_patches_def comp_def)
  have 2: "map (p_order \<circ> snd) (reorder_patches list i j) = map Some (map order ?n)"
    by (simp add: reorder_patches_def comp_def order_patch_def)
  have 3: "map (p_status \<circ> snd) (reorder_patches list i j) = map (\<lambda>_. None) ?n"
    by (simp add: reorder_patches_def comp_def order_patch_def no_patch_def)
  have a: "map fst (reorder_patches list i j) = map id' (arrayMove list (nat i) (nat j))"
    unfolding 1 by (rule normalizeOrders_ids)
  have b: "map (p_order \<circ> snd) (reorder_patches list i j)
       = map (\<lambda>k. Some ((int k + 1) * 1000)) [0..<length (arrayMove list (nat i) (nat j))]"
    unfolding 2 normalizeOrders_orders by simp
  have c: "map (p_status \<circ> snd) (reorder_patches list i j)
       = replicate (length (arrayMove list (nat i) (nat j))) None"
    unfolding 3 by (simp add: map_replicate_const normalizeOrders_length)
  show ?thesis
    using a b c by blast
qed

lemma find_Some_mem: "find P xs = Some a \<Longrightarrow> a \<in> set xs \<and> P a"
  by (induction xs) (auto split: if_splits)



















lemma normalizeOrders_status: "map status (normalizeOrders xs) = map status xs"
proof -
  have "map status (normalizeOrders xs) = map (\<lambda>(idx, it). status it) (enumerate 0 xs)"
    by (simp add: normalizeOrders_def case_prod_unfold)
  then show ?thesis by (simp add: map_item_enumerate)
qed

lemma column_set: "set (column scoped st) = {x \<in> set scoped. status x = st}"
  by (auto simp: column_def)

lemma column_distinct_ids:
  "distinct (map id' scoped) \<Longrightarrow> distinct (map id' (column scoped st))"
  by (auto simp: column_def distinct_map intro: inj_on_subset)

lemma scoped_set: "set (scopedIssues issues) = set issues"
  by (simp add: scopedIssues_def)

lemma scoped_distinct_ids:
  "distinct (map id' issues) \<Longrightarrow> distinct (map id' (scopedIssues issues))"
  by (simp add: scopedIssues_def distinct_map)

lemma filter_out_one:
  "distinct (map f xs) \<Longrightarrow> a \<in> set xs \<Longrightarrow>
   length (filter (\<lambda>x. f x \<noteq> f a) xs) = length xs - 1"
proof (induction xs)
  case Nil
  then show ?case by simp
next
  case (Cons x xs)
  show ?case
  proof (cases "x = a")
    case True
    with Cons.prems have "f a \<notin> f ` set xs" by simp
    then have "\<forall>y\<in>set xs. f y \<noteq> f a" by (metis imageI)
    then have "filter (\<lambda>x. f x \<noteq> f a) xs = xs" by simp
    with True show ?thesis by simp
  next
    case False
    with Cons.prems have "a \<in> set xs" and "f x \<noteq> f a" by auto
    with Cons show ?thesis by (cases xs) auto
  qed
qed

lemma dest_patches_shape:
  assumes "\<forall>x\<in>set T. status x = st"
  shows "map (p_status \<circ> snd)
           (map (\<lambda>it. (id' it, status_order_patch (status it) (order it))) (normalizeOrders T))
         = replicate (length T) (Some st)"
    and "map (p_order \<circ> snd)
           (map (\<lambda>it. (id' it, status_order_patch (status it) (order it))) (normalizeOrders T))
         = map (\<lambda>k. Some ((int k + 1) * 1000)) [0..<length T]"
    and "map fst
           (map (\<lambda>it. (id' it, status_order_patch (status it) (order it))) (normalizeOrders T))
         = map id' T"
proof -
  have "map (p_status \<circ> snd)
           (map (\<lambda>it. (id' it, status_order_patch (status it) (order it))) (normalizeOrders T))
      = map Some (map status (normalizeOrders T))"
    by (simp add: comp_def status_order_patch_def no_patch_def)
  also have "\<dots> = map Some (map status T)"
    by (simp only: normalizeOrders_status)
  also have "\<dots> = replicate (length T) (Some st)"
    using assms by (simp add: map_replicate_const [symmetric] cong: map_cong)
  finally show "map (p_status \<circ> snd)
           (map (\<lambda>it. (id' it, status_order_patch (status it) (order it))) (normalizeOrders T))
         = replicate (length T) (Some st)" .
  have "map (p_order \<circ> snd)
           (map (\<lambda>it. (id' it, status_order_patch (status it) (order it))) (normalizeOrders T))
      = map Some (map order (normalizeOrders T))"
    by (simp add: comp_def status_order_patch_def no_patch_def)
  then show "map (p_order \<circ> snd)
           (map (\<lambda>it. (id' it, status_order_patch (status it) (order it))) (normalizeOrders T))
         = map (\<lambda>k. Some ((int k + 1) * 1000)) [0..<length T]"
    unfolding normalizeOrders_orders by simp
  have "map fst
           (map (\<lambda>it. (id' it, status_order_patch (status it) (order it))) (normalizeOrders T))
      = map id' (normalizeOrders T)"
    by (simp add: comp_def)
  then show "map fst
           (map (\<lambda>it. (id' it, status_order_patch (status it) (order it))) (normalizeOrders T))
         = map id' T"
    by (simp only: normalizeOrders_ids)
qed

lemma source_patches_shape:
  shows "map (p_status \<circ> snd)
           (map (\<lambda>it. (id' it, order_patch (order it))) (normalizeOrders F))
         = replicate (length F) None"
    and "map (p_order \<circ> snd)
           (map (\<lambda>it. (id' it, order_patch (order it))) (normalizeOrders F))
         = map (\<lambda>k. Some ((int k + 1) * 1000)) [0..<length F]"
    and "map fst (map (\<lambda>it. (id' it, order_patch (order it))) (normalizeOrders F)) = map id' F"
proof -
  show "map (p_status \<circ> snd)
           (map (\<lambda>it. (id' it, order_patch (order it))) (normalizeOrders F))
         = replicate (length F) None"
    by (simp add: comp_def order_patch_def no_patch_def map_replicate_const normalizeOrders_length)
  have "map (p_order \<circ> snd)
           (map (\<lambda>it. (id' it, order_patch (order it))) (normalizeOrders F))
      = map Some (map order (normalizeOrders F))"
    by (simp add: comp_def order_patch_def no_patch_def)
  then show "map (p_order \<circ> snd)
           (map (\<lambda>it. (id' it, order_patch (order it))) (normalizeOrders F))
         = map (\<lambda>k. Some ((int k + 1) * 1000)) [0..<length F]"
    unfolding normalizeOrders_orders by simp
  have "map fst (map (\<lambda>it. (id' it, order_patch (order it))) (normalizeOrders F))
      = map id' (normalizeOrders F)"
    by (simp add: comp_def)
  then show "map fst (map (\<lambda>it. (id' it, order_patch (order it))) (normalizeOrders F)) = map id' F"
    by (simp only: normalizeOrders_ids)
qed

lemma set_insert_at: "set (take n xs @ [m] @ drop n xs) = insert m (set xs)"
proof -
  have "set (take n xs) \<union> set (drop n xs) = set xs"
    by (metis append_take_drop_id set_append)
  then show ?thesis by auto
qed

lemma length_insert_at: "length (take n xs @ [m] @ drop n xs) = length xs + 1"
  by (simp add: min_def)

lemma crossColumn_result:
  "\<exists>T. crossColumn fromList toList aId active overIssue toStatus
        = Some (map (\<lambda>it. (id' it, status_order_patch (status it) (order it))) (normalizeOrders T)
                @ map (\<lambda>it. (id' it, order_patch (order it)))
                    (normalizeOrders (filter (\<lambda>x. id' x \<noteq> aId) fromList)))
     \<and> length T = length (filter (\<lambda>x. id' x \<noteq> aId) toList) + 1
     \<and> set T = insert (active\<lparr>status := toStatus\<rparr>) (set (filter (\<lambda>x. id' x \<noteq> aId) toList))"
proof -
  define T0 where "T0 = filter (\<lambda>x. id' x \<noteq> aId) toList"
  define ins where "ins = (case overIssue of
        Some ov \<Rightarrow> max 0 (findIndex (\<lambda>x. id' x = id' ov) T0) | None \<Rightarrow> int (length T0))"
  define T where "T = (if 0 \<le> ins \<and> ins \<le> int (length T0)
        then take (nat ins) T0 @ [active\<lparr>status := toStatus\<rparr>] @ drop (nat ins) T0
        else T0 @ [active\<lparr>status := toStatus\<rparr>])"
  have run: "crossColumn fromList toList aId active overIssue toStatus
        = Some (map (\<lambda>it. (id' it, status_order_patch (status it) (order it))) (normalizeOrders T)
                @ map (\<lambda>it. (id' it, order_patch (order it)))
                    (normalizeOrders (filter (\<lambda>x. id' x \<noteq> aId) fromList)))"
    unfolding crossColumn_def Let_def T_def ins_def T0_def by (rule refl)
  have len: "length T = length T0 + 1"
  proof (cases "0 \<le> ins \<and> ins \<le> int (length T0)")
    case True
    then have "T = take (nat ins) T0 @ [active\<lparr>status := toStatus\<rparr>] @ drop (nat ins) T0"
      unfolding T_def by (simp only: if_True simp_thms)
    then show ?thesis by (simp only: length_insert_at)
  next
    case False
    then have "T = T0 @ [active\<lparr>status := toStatus\<rparr>]"
      unfolding T_def by (simp only: if_False simp_thms)
    then show ?thesis by simp
  qed
  have st: "set T = insert (active\<lparr>status := toStatus\<rparr>) (set T0)"
  proof (cases "0 \<le> ins \<and> ins \<le> int (length T0)")
    case True
    then have "T = take (nat ins) T0 @ [active\<lparr>status := toStatus\<rparr>] @ drop (nat ins) T0"
      unfolding T_def by (simp only: if_True simp_thms)
    then show ?thesis by (simp only: set_insert_at)
  next
    case False
    then have "T = T0 @ [active\<lparr>status := toStatus\<rparr>]"
      unfolding T_def by (simp only: if_False simp_thms)
    then show ?thesis by simp
  qed
  show ?thesis
    using run len st unfolding T0_def by blast
qed

lemma onDragEnd_BoardPage_cross:
  assumes "find (\<lambda>x. id' x = aId) (scopedIssues issues) = Some active"
    and "oId \<noteq> []"
    and "resolveToStatus (find (\<lambda>x. id' x = oId) (scopedIssues issues)) oId = Some toStatus"
    and "canShowStatus v toStatus"
    and "status active \<noteq> toStatus"
  shows "onDragEnd_BoardPage v issues aId (Some oId)
       = crossColumn (column (scopedIssues issues) (status active))
           (column (scopedIssues issues) toStatus) aId active
           (find (\<lambda>x. id' x = oId) (scopedIssues issues)) toStatus"
  using assms by (simp add: onDragEnd_BoardPage_def Let_def)

lemma onDragEnd_BoardColumns_cross:
  assumes "find (\<lambda>x. id' x = aId) (scopedIssues issues) = Some active"
    and "oId \<noteq> []"
    and "resolveToStatus (find (\<lambda>x. id' x = oId) (scopedIssues issues)) oId = Some toStatus"
    and "canShowStatus v toStatus"
    and "status active \<noteq> toStatus"
  shows "onDragEnd_BoardColumns v issues lastOverId aId (Some oId)
       = crossColumn (column (scopedIssues issues) (status active))
           (column (scopedIssues issues) toStatus) aId active
           (find (\<lambda>x. id' x = oId) (scopedIssues issues)) toStatus"
  using assms by (simp add: onDragEnd_BoardColumns_def Let_def)

text \<open>
  C3 (amended). A cross-column drag-end (cached ids distinct, the dragged issue resolves,
  the drop resolves to a status the view shows and that differs from the issue's own)
  from a source column of size \<open>a\<close> to a destination column of size \<open>b\<close>: both handlers
  emit the same \<open>(a - 1) + (b + 1)\<close> patches. The first \<open>b + 1\<close> are the destination list
  with the moved issue inserted, each with the destination status and the orders
  \<open>1000, 2000, \<dots>\<close>; the other \<open>a - 1\<close> are the remaining source issues in their order,
  each with the new order only and no status.
\<close>

theorem cross_column_move:
  assumes pk: "distinct (map id' issues)"
    and act: "find (\<lambda>x. id' x = aId) (scopedIssues issues) = Some active"
    and oid: "oId \<noteq> []"
    and dst: "resolveToStatus (find (\<lambda>x. id' x = oId) (scopedIssues issues)) oId = Some toStatus"
    and vis: "canShowStatus v toStatus"
    and cross: "status active \<noteq> toStatus"
    and a: "a = length (column (scopedIssues issues) (status active))"
    and b: "b = length (column (scopedIssues issues) toStatus)"
  shows "\<exists>ps. onDragEnd_BoardPage v issues aId (Some oId) = Some ps
          \<and> onDragEnd_BoardColumns v issues lastOverId aId (Some oId) = Some ps
          \<and> length ps = (a - 1) + (b + 1)
          \<and> map (p_status \<circ> snd) (take (b + 1) ps) = replicate (b + 1) (Some toStatus)
          \<and> map (p_order \<circ> snd) (take (b + 1) ps)
              = map (\<lambda>k. Some ((int k + 1) * 1000)) [0..<b + 1]
          \<and> set (map fst (take (b + 1) ps))
              = insert aId (id' ` set (column (scopedIssues issues) toStatus))
          \<and> map (p_status \<circ> snd) (drop (b + 1) ps) = replicate (a - 1) None
          \<and> map (p_order \<circ> snd) (drop (b + 1) ps)
              = map (\<lambda>k. Some ((int k + 1) * 1000)) [0..<a - 1]
          \<and> map fst (drop (b + 1) ps)
              = filter (\<lambda>i. i \<noteq> aId) (map id' (column (scopedIssues issues) (status active)))"
proof -
  define fromList where "fromList = column (scopedIssues issues) (status active)"
  define toList where "toList = column (scopedIssues issues) toStatus"
  define F where "F = filter (\<lambda>x. id' x \<noteq> aId) fromList"
  obtain T where
    branch: "crossColumn fromList toList aId active
               (find (\<lambda>x. id' x = oId) (scopedIssues issues)) toStatus
        = Some (map (\<lambda>it. (id' it, status_order_patch (status it) (order it))) (normalizeOrders T)
                @ map (\<lambda>it. (id' it, order_patch (order it))) (normalizeOrders F))"
    and lenT0: "length T = length (filter (\<lambda>x. id' x \<noteq> aId) toList) + 1"
    and setT0: "set T = insert (active\<lparr>status := toStatus\<rparr>)
                          (set (filter (\<lambda>x. id' x \<noteq> aId) toList))"
    unfolding F_def using crossColumn_result by blast
  define D where "D = map (\<lambda>it. (id' it, status_order_patch (status it) (order it))) (normalizeOrders T)"
  define S where "S = map (\<lambda>it. (id' it, order_patch (order it))) (normalizeOrders F)"

  have act_in: "active \<in> set issues" and act_id: "id' active = aId"
    using find_Some_mem [OF act] by (simp_all add: scoped_set)
  have dscoped: "distinct (map id' (scopedIssues issues))"
    using pk by (rule scoped_distinct_ids)
  have inj: "inj_on id' (set issues)"
    using pk by (simp add: distinct_map)
  have to_no_active: "filter (\<lambda>x. id' x \<noteq> aId) toList = toList"
  proof -
    have "id' x \<noteq> aId" if "x \<in> set toList" for x
    proof
      assume "id' x = aId"
      from that have "x \<in> set issues" and st: "status x = toStatus"
        by (simp_all add: toList_def column_set scoped_set)
      with inj act_in act_id \<open>id' x = aId\<close> have "x = active"
        by (simp add: inj_on_def)
      with st cross show False by simp
    qed
    then show ?thesis by simp
  qed
  have lenT: "length T = b + 1"
    using lenT0 unfolding to_no_active by (simp add: b toList_def)
  have setT: "set T = insert (active\<lparr>status := toStatus\<rparr>) (set toList)"
    using setT0 by (simp only: to_no_active)
  have statT: "\<forall>x\<in>set T. status x = toStatus"
    unfolding setT by (simp add: toList_def column_set)
  have idsT: "id' ` set T = insert aId (id' ` set toList)"
    unfolding setT by (simp add: act_id)
  have from_in: "active \<in> set fromList"
    using act_in by (simp add: fromList_def column_set scoped_set)
  have dfrom: "distinct (map id' fromList)"
    unfolding fromList_def using dscoped by (rule column_distinct_ids)
  have lenF: "length F = a - 1"
    unfolding F_def act_id [symmetric] a fromList_def [symmetric]
    using dfrom from_in by (rule filter_out_one)
  have idsF: "map id' F = filter (\<lambda>i. i \<noteq> aId) (map id' fromList)"
    by (simp add: F_def filter_map comp_def)

  have page: "onDragEnd_BoardPage v issues aId (Some oId) = Some (D @ S)"
    unfolding D_def S_def branch [symmetric] fromList_def toList_def
    using act oid dst vis cross by (rule onDragEnd_BoardPage_cross)
  have cols: "onDragEnd_BoardColumns v issues lastOverId aId (Some oId) = Some (D @ S)"
    unfolding D_def S_def branch [symmetric] fromList_def toList_def
    using act oid dst vis cross by (rule onDragEnd_BoardColumns_cross)

  have lenD: "length D = b + 1"
    by (simp add: D_def normalizeOrders_length lenT)
  have lenS: "length S = a - 1"
    by (simp add: S_def normalizeOrders_length lenF)
  have tk: "take (b + 1) (D @ S) = D" and dr: "drop (b + 1) (D @ S) = S"
    using lenD by simp_all
  have d1: "map (p_status \<circ> snd) D = replicate (b + 1) (Some toStatus)"
    unfolding D_def using dest_patches_shape(1) [OF statT] by (simp only: lenT)
  have d2: "map (p_order \<circ> snd) D = map (\<lambda>k. Some ((int k + 1) * 1000)) [0..<b + 1]"
    unfolding D_def using dest_patches_shape(2) [OF statT] by (simp only: lenT)
  have "map fst D = map id' T"
    unfolding D_def using statT by (rule dest_patches_shape(3))
  then have d3: "set (map fst D) = insert aId (id' ` set (column (scopedIssues issues) toStatus))"
    using idsT by (simp add: toList_def)
  have s1: "map (p_status \<circ> snd) S = replicate (a - 1) None"
    unfolding S_def using source_patches_shape(1) [of F] by (simp only: lenF)
  have s2: "map (p_order \<circ> snd) S = map (\<lambda>k. Some ((int k + 1) * 1000)) [0..<a - 1]"
    unfolding S_def using source_patches_shape(2) [of F] by (simp only: lenF)
  have "map fst S = map id' F"
    unfolding S_def by (rule source_patches_shape(3))
  then have s3: "map fst S
      = filter (\<lambda>i. i \<noteq> aId) (map id' (column (scopedIssues issues) (status active)))"
    using idsF by (simp add: fromList_def)
  have len: "length (D @ S) = (a - 1) + (b + 1)"
    using lenD lenS by simp
  have "onDragEnd_BoardPage v issues aId (Some oId) = Some (D @ S)
          \<and> onDragEnd_BoardColumns v issues lastOverId aId (Some oId) = Some (D @ S)
          \<and> length (D @ S) = (a - 1) + (b + 1)
          \<and> map (p_status \<circ> snd) (take (b + 1) (D @ S)) = replicate (b + 1) (Some toStatus)
          \<and> map (p_order \<circ> snd) (take (b + 1) (D @ S))
              = map (\<lambda>k. Some ((int k + 1) * 1000)) [0..<b + 1]
          \<and> set (map fst (take (b + 1) (D @ S)))
              = insert aId (id' ` set (column (scopedIssues issues) toStatus))
          \<and> map (p_status \<circ> snd) (drop (b + 1) (D @ S)) = replicate (a - 1) None
          \<and> map (p_order \<circ> snd) (drop (b + 1) (D @ S))
              = map (\<lambda>k. Some ((int k + 1) * 1000)) [0..<a - 1]
          \<and> map fst (drop (b + 1) (D @ S))
              = filter (\<lambda>i. i \<noteq> aId) (map id' (column (scopedIssues issues) (status active)))"
    unfolding tk dr using page cols len d1 d2 d3 s1 s2 s3 by blast
  then show ?thesis by (rule exI)
qed

lemma example_board_scoped:
  "scopedIssues example_board
     = [mk_issue ''X'' ''todo'' 1000, mk_issue ''Z'' ''in_progress'' 1000,
        mk_issue ''Y'' ''todo'' 2000]"
  by (simp add: scopedIssues_def example_board_def mk_issue_def)

lemma example_board_columns:
  "column (scopedIssues example_board) ''todo''
     = [mk_issue ''X'' ''todo'' 1000, mk_issue ''Y'' ''todo'' 2000]"
  "column (scopedIssues example_board) ''in_progress'' = [mk_issue ''Z'' ''in_progress'' 1000]"
  by (simp_all add: example_board_scoped) (simp_all add: column_def mk_issue_def)

lemma example_board_find:
  "find (\<lambda>x. id' x = ''X'') (scopedIssues example_board) = Some (mk_issue ''X'' ''todo'' 1000)"
  "find (\<lambda>x. id' x = ''Z'') (scopedIssues example_board)
     = Some (mk_issue ''Z'' ''in_progress'' 1000)"
  by (simp_all add: example_board_scoped) (simp_all add: mk_issue_def)

lemma example_board_move:
  "onDragEnd_BoardColumns ViewSprint example_board None ''X'' (Some ''Z'')
     = Some [(''X'', status_order_patch ''in_progress'' 1000),
             (''Z'', status_order_patch ''in_progress'' 2000),
             (''Y'', order_patch 1000)]"
  "onDragEnd_BoardPage ViewSprint example_board ''X'' (Some ''Z'')
     = Some [(''X'', status_order_patch ''in_progress'' 1000),
             (''Z'', status_order_patch ''in_progress'' 2000),
             (''Y'', order_patch 1000)]"
proof -
  have dst: "resolveToStatus (Some (mk_issue ''Z'' ''in_progress'' 1000)) ''Z'' = Some ''in_progress''"
    by (simp add: resolveToStatus_def parseDropStatus_def Let_def mk_issue_def)
  have st: "status (mk_issue ''X'' ''todo'' 1000) = ''todo''"
    by (simp add: mk_issue_def)
  have br: "crossColumn [mk_issue ''X'' ''todo'' 1000, mk_issue ''Y'' ''todo'' 2000]
        [mk_issue ''Z'' ''in_progress'' 1000] ''X'' (mk_issue ''X'' ''todo'' 1000)
        (Some (mk_issue ''Z'' ''in_progress'' 1000)) ''in_progress''
     = Some [(''X'', status_order_patch ''in_progress'' 1000),
             (''Z'', status_order_patch ''in_progress'' 2000),
             (''Y'', order_patch 1000)]"
    by (simp add: crossColumn_def Let_def normalizeOrders_def mk_issue_def)
  show "onDragEnd_BoardColumns ViewSprint example_board None ''X'' (Some ''Z'')
     = Some [(''X'', status_order_patch ''in_progress'' 1000),
             (''Z'', status_order_patch ''in_progress'' 2000),
             (''Y'', order_patch 1000)]"
    by (simp add: onDragEnd_BoardColumns_def Let_def example_board_find dst st
        canShowStatus_def example_board_columns br)
  show "onDragEnd_BoardPage ViewSprint example_board ''X'' (Some ''Z'')
     = Some [(''X'', status_order_patch ''in_progress'' 1000),
             (''Z'', status_order_patch ''in_progress'' 2000),
             (''Y'', order_patch 1000)]"
    by (simp add: onDragEnd_BoardPage_def Let_def example_board_find dst st
        canShowStatus_def example_board_columns br)
qed

theorem cross_column_move_witness:
  "distinct (map id' example_board)
   \<and> find (\<lambda>x. id' x = ''X'') (scopedIssues example_board) = Some (mk_issue ''X'' ''todo'' 1000)
   \<and> canShowStatus ViewSprint ''in_progress''
   \<and> length (column (scopedIssues example_board) (status (mk_issue ''X'' ''todo'' 1000))) = 2
   \<and> length (column (scopedIssues example_board) ''in_progress'') = 1
   \<and> (\<exists>ps. onDragEnd_BoardPage ViewSprint example_board ''X'' (Some ''Z'') = Some ps
          \<and> onDragEnd_BoardColumns ViewSprint example_board None ''X'' (Some ''Z'') = Some ps
          \<and> length ps = (2 - 1) + (1 + 1)
          \<and> map (p_status \<circ> snd) (take 2 ps) = [Some ''in_progress'', Some ''in_progress'']
          \<and> map (p_status \<circ> snd) (drop 2 ps) = [None])"
proof -
  have pk: "distinct (map id' example_board)"
    by (simp add: example_board_def mk_issue_def)
  have oid: "''Z'' \<noteq> []" by simp
  have dst: "resolveToStatus (find (\<lambda>x. id' x = ''Z'') (scopedIssues example_board)) ''Z''
      = Some ''in_progress''"
    by (simp add: example_board_find resolveToStatus_def parseDropStatus_def Let_def mk_issue_def)
  have vis: "canShowStatus ViewSprint ''in_progress''"
    by (simp add: canShowStatus_def)
  have cross: "status (mk_issue ''X'' ''todo'' 1000) \<noteq> ''in_progress''"
    by (simp add: mk_issue_def)
  have a: "2 = length (column (scopedIssues example_board) (status (mk_issue ''X'' ''todo'' 1000)))"
    by (simp add: mk_issue_def) (simp add: example_board_columns)
  have b: "1 = length (column (scopedIssues example_board) ''in_progress'')"
    by (simp add: example_board_columns)
  show ?thesis
    using cross_column_move [OF pk example_board_find(1) oid dst vis cross a b, of None]
      pk example_board_find(1) vis a b
    by (auto simp: numeral_2_eq_2)
qed

text \<open>
  The claim as stated fails in its count: with a source column of 2 and a destination
  column of 1, the move emits 3 patches (the destination list includes the moved issue),
  not \<open>(2 - 1) + 1\<close>.
\<close>

theorem cross_column_patch_count:
  "length (column (scopedIssues example_board) ''todo'') = 2
   \<and> length (column (scopedIssues example_board) ''in_progress'') = 1
   \<and> onDragEnd_BoardColumns ViewSprint example_board None ''X'' (Some ''Z'')
       = Some [(''X'', status_order_patch ''in_progress'' 1000),
               (''Z'', status_order_patch ''in_progress'' 2000),
               (''Y'', order_patch 1000)]
   \<and> onDragEnd_BoardPage ViewSprint example_board ''X'' (Some ''Z'')
       = Some [(''X'', status_order_patch ''in_progress'' 1000),
               (''Z'', status_order_patch ''in_progress'' 2000),
               (''Y'', order_patch 1000)]
   \<and> length [(''X'', status_order_patch ''in_progress'' 1000),
              (''Z'', status_order_patch ''in_progress'' 2000),
              (''Y'', order_patch 1000)] \<noteq> (2 - 1) + (1::nat)"
  by (simp add: example_board_columns example_board_move)

section \<open>Properties of the search controller\<close>

lemma abort_ctl_length: "length (abort_ctl r rs) = length rs"
  by (simp add: abort_ctl_def split: option.splits)

lemma abort_ctl_nth:
  "k < length rs \<Longrightarrow>
   abort_ctl r rs ! k = (if r = Some k then (rs ! k)\<lparr>rq_aborted := True\<rparr> else rs ! k)"
  by (auto simp: abort_ctl_def nth_list_update split: option.splits)

lemma abort_ctl_empty_iff: "abort_ctl r rs = [] \<longleftrightarrow> rs = []"
  using abort_ctl_length [of r rs] by (metis length_0_conv)

lemma abort_ctl_keeps_aborted:
  assumes "list_all rq_aborted (butlast rs)"
  shows "list_all rq_aborted (butlast (abort_ctl r rs))"
  unfolding list_all_length
proof (intro allI impI)
  fix k
  assume k: "k < length (butlast (abort_ctl r rs))"
  then have k': "k < length (butlast rs)" and k'': "k < length rs"
    by (simp_all add: abort_ctl_length)
  from assms k' have "rq_aborted (butlast rs ! k)"
    by (simp add: list_all_length)
  with k' have "rq_aborted (rs ! k)"
    by (simp add: nth_butlast)
  then have "rq_aborted (abort_ctl r rs ! k)"
    using k'' by (simp add: abort_ctl_nth)
  then show "rq_aborted (butlast (abort_ctl r rs) ! k)"
    using k by (simp add: nth_butlast)
qed

lemma abort_ctl_last_all:
  assumes "list_all rq_aborted (butlast rs)" and "rs \<noteq> []"
  shows "list_all rq_aborted (abort_ctl (Some (length rs - 1)) rs)"
  unfolding list_all_length
proof (intro allI impI)
  fix k
  assume "k < length (abort_ctl (Some (length rs - 1)) rs)"
  then have k: "k < length rs" by (simp add: abort_ctl_length)
  show "rq_aborted (abort_ctl (Some (length rs - 1)) rs ! k)"
  proof (cases "k = length rs - 1")
    case True
    with k show ?thesis by (simp add: abort_ctl_nth)
  next
    case False
    with k have kb: "k < length (butlast rs)" by simp
    with assms(1) have "rq_aborted (butlast rs ! k)" by (simp add: list_all_length)
    with kb have "rq_aborted (rs ! k)" by (simp add: nth_butlast)
    with k show ?thesis by (simp add: abort_ctl_nth)
  qed
qed

lemma inv_abort_current:
  assumes "picker_inv s"
  shows "list_all rq_aborted (abort_ctl (pk_abortRef s) (pk_requests s))"
proof (cases "pk_requests s = []")
  case True
  then show ?thesis by (simp add: abort_ctl_def split: option.splits)
next
  case False
  with assms have r: "pk_abortRef s = Some (length (pk_requests s) - 1)"
    and b: "list_all rq_aborted (butlast (pk_requests s))"
    by (simp_all add: picker_inv_def)
  show ?thesis
    unfolding r using b False by (rule abort_ctl_last_all)
qed

lemma inv_run_cleanup: "picker_inv s \<Longrightarrow> picker_inv (run_cleanup s)"
  by (simp add: picker_inv_def run_cleanup_def abort_ctl_keeps_aborted abort_ctl_length
      abort_ctl_empty_iff)

lemma inv_abort_ref:
  "picker_inv s \<Longrightarrow> picker_inv (s\<lparr>pk_requests := abort_ctl (pk_abortRef s) (pk_requests s)\<rparr>)"
  by (simp add: picker_inv_def abort_ctl_keeps_aborted abort_ctl_length abort_ctl_empty_iff)

lemma inv_effect_multi: "picker_inv s \<Longrightarrow> picker_inv (effect_multi m s)"
  using inv_abort_current [of s] inv_abort_ref [of s]
  by (auto simp: effect_multi_def Let_def picker_inv_def abort_ctl_length abort_ctl_empty_iff)

lemma inv_effect_single: "picker_inv s \<Longrightarrow> picker_inv (effect_single m s)"
  using inv_abort_current [of s] inv_abort_ref [of s]
  by (auto simp: effect_single_def Let_def picker_inv_def abort_ctl_length abort_ctl_empty_iff)

lemma settled_update_keeps_aborted:
  "list_all rq_aborted (butlast (rs[k := (rs ! k)\<lparr>rq_settled := True\<rparr>]))
     = list_all rq_aborted (butlast rs)"
proof -
  have "map rq_aborted (rs[k := (rs ! k)\<lparr>rq_settled := True\<rparr>])
      = (map rq_aborted rs)[k := rq_aborted (rs ! k)]"
    by (simp add: map_update)
  also have "\<dots> = map rq_aborted rs"
    by (cases "k < length rs") (simp_all add: list_update_same_conv list_update_beyond)
  finally have "map rq_aborted (butlast (rs[k := (rs ! k)\<lparr>rq_settled := True\<rparr>]))
      = map rq_aborted (butlast rs)"
    by (simp add: map_butlast)
  moreover have e: "list_all rq_aborted xs = (\<forall>b\<in>set (map rq_aborted xs). b)" for xs
    by (simp add: list_all_iff)
  ultimately show ?thesis
    by (simp only: e)
qed

lemma inv_settle_multi: "picker_inv s \<Longrightarrow> picker_inv (settle_multi s k r)"
  by (cases r) (simp_all add: settle_multi_def Let_def picker_inv_def settled_update_keeps_aborted)

lemma inv_settle_single: "picker_inv s \<Longrightarrow> picker_inv (settle_single s k r)"
  by (cases r) (simp_all add: settle_single_def Let_def picker_inv_def settled_update_keeps_aborted)

lemma inv_fields:
  "picker_inv s \<Longrightarrow>
   picker_inv (s\<lparr>pk_open := a\<rparr>) \<and> picker_inv (s\<lparr>pk_input := b\<rparr>)
   \<and> picker_inv (s\<lparr>pk_debounced := c\<rparr>) \<and> picker_inv (s\<lparr>pk_activeIndex := d\<rparr>)
   \<and> picker_inv (s\<lparr>pk_items := e\<rparr>) \<and> picker_inv (s\<lparr>pk_error := f\<rparr>)
   \<and> picker_inv (s\<lparr>pk_loading := g\<rparr>)"
  by (simp add: picker_inv_def)

lemma picker_inv_cong:
  "pk_requests s' = pk_requests s \<Longrightarrow> pk_abortRef s' = pk_abortRef s \<Longrightarrow>
   picker_inv s' = picker_inv s"
  by (simp add: picker_inv_def)

lemma inv_step_multi: "picker_inv s \<Longrightarrow> picker_inv (step_multi m s ev)"
proof (cases ev)
  case (M_SetOpen b)
  assume "picker_inv s"
  then have "picker_inv (effect_multi m (run_cleanup (s\<lparr>pk_open := b\<rparr>)))"
    by (intro inv_effect_multi inv_run_cleanup) (simp add: inv_fields)
  with \<open>picker_inv s\<close> M_SetOpen show ?thesis by simp
next
  case (M_SetInput v)
  assume "picker_inv s"
  with M_SetInput show ?thesis by (simp add: inv_fields)
next
  case (M_SetActiveIndex n)
  assume "picker_inv s"
  with M_SetActiveIndex show ?thesis by (simp add: inv_fields)
next
  case M_ResetResults
  assume "picker_inv s"
  then have "picker_inv (s\<lparr>pk_requests := abort_ctl (pk_abortRef s) (pk_requests s)\<rparr>)"
    by (rule inv_abort_ref)
  moreover have "picker_inv (step_multi m s ev)
      = picker_inv (s\<lparr>pk_requests := abort_ctl (pk_abortRef s) (pk_requests s)\<rparr>)"
    unfolding M_ResetResults by (rule picker_inv_cong) simp_all
  ultimately show ?thesis by simp
next
  case M_DebounceElapsed
  assume "picker_inv s"
  then have "picker_inv (effect_multi m (run_cleanup (s\<lparr>pk_debounced := pk_input s\<rparr>)))"
    by (intro inv_effect_multi inv_run_cleanup) (simp add: inv_fields)
  with \<open>picker_inv s\<close> M_DebounceElapsed show ?thesis by simp
next
  case M_DepsChanged
  assume "picker_inv s"
  then have "picker_inv (effect_multi m (run_cleanup s))"
    by (intro inv_effect_multi inv_run_cleanup)
  with M_DepsChanged show ?thesis by simp
next
  case (M_Settle k r)
  assume "picker_inv s"
  with M_Settle show ?thesis by (simp add: inv_settle_multi)
qed

lemma inv_close_single: "picker_inv s \<Longrightarrow> picker_inv (close_single m s)"
proof -
  assume i: "picker_inv s"
  let ?s1 = "s\<lparr>pk_open := False, pk_input := [], pk_items := [], pk_error := None,
               pk_loading := False, pk_activeIndex := 0,
               pk_requests := abort_ctl (pk_abortRef s) (pk_requests s)\<rparr>"
  from i have "picker_inv (s\<lparr>pk_requests := abort_ctl (pk_abortRef s) (pk_requests s)\<rparr>)"
    by (rule inv_abort_ref)
  moreover have "picker_inv ?s1
      = picker_inv (s\<lparr>pk_requests := abort_ctl (pk_abortRef s) (pk_requests s)\<rparr>)"
    by (rule picker_inv_cong) simp_all
  ultimately have s1: "picker_inv ?s1"
    by simp
  then have "picker_inv (effect_single m (run_cleanup ?s1))"
    by (intro inv_effect_single inv_run_cleanup)
  with s1 show ?thesis
    by (simp add: close_single_def Let_def)
qed

lemma inv_step_single: "picker_inv s \<Longrightarrow> picker_inv (step_single m s ev)"
proof (cases ev)
  case S_Focus
  assume "picker_inv s"
  then have "picker_inv (effect_single m (run_cleanup (s\<lparr>pk_open := True\<rparr>)))"
    by (intro inv_effect_single inv_run_cleanup) (simp add: inv_fields)
  with \<open>picker_inv s\<close> S_Focus show ?thesis by simp
next
  case (S_Change v)
  assume i: "picker_inv s"
  then have "picker_inv (s\<lparr>pk_open := True, pk_input := v\<rparr>)"
    by (simp add: picker_inv_def)
  then have "picker_inv (effect_single m (run_cleanup (s\<lparr>pk_open := True, pk_input := v\<rparr>)))"
    by (intro inv_effect_single inv_run_cleanup)
  with i S_Change show ?thesis by (simp add: inv_fields)
next
  case S_Close
  assume "picker_inv s"
  with S_Close show ?thesis by (simp add: inv_close_single)
next
  case S_ArrowDown
  assume i: "picker_inv s"
  then have "picker_inv (effect_single m (run_cleanup (s\<lparr>pk_open := True\<rparr>)))"
    by (intro inv_effect_single inv_run_cleanup) (simp add: inv_fields)
  with i S_ArrowDown show ?thesis by (simp add: inv_fields)
next
  case S_ArrowUp
  assume "picker_inv s"
  with S_ArrowUp show ?thesis by (simp add: inv_fields)
next
  case (S_MouseEnter n)
  assume "picker_inv s"
  with S_MouseEnter show ?thesis by (simp add: inv_fields)
next
  case S_DebounceElapsed
  assume "picker_inv s"
  then have "picker_inv (effect_single m (run_cleanup (s\<lparr>pk_debounced := pk_input s\<rparr>)))"
    by (intro inv_effect_single inv_run_cleanup) (simp add: inv_fields)
  with \<open>picker_inv s\<close> S_DebounceElapsed show ?thesis by simp
next
  case S_DepsChanged
  assume "picker_inv s"
  then have "picker_inv (effect_single m (run_cleanup s))"
    by (intro inv_effect_single inv_run_cleanup)
  with S_DepsChanged show ?thesis by simp
next
  case (S_Settle k r)
  assume "picker_inv s"
  with S_Settle show ?thesis by (simp add: inv_settle_single)
qed

lemma inv_init: "picker_inv init_picker"
  by (simp add: picker_inv_def init_picker_def)

lemma inv_run_multi: "picker_inv s \<Longrightarrow> picker_inv (run_multi m s evs)"
  unfolding run_multi_def by (induction evs arbitrary: s) (simp_all add: inv_step_multi)

lemma inv_run_single: "picker_inv s \<Longrightarrow> picker_inv (run_single m s evs)"
  unfolding run_single_def by (induction evs arbitrary: s) (simp_all add: inv_step_single)

lemma inv_outstanding: 
  assumes "picker_inv s"
  shows "length (outstanding s) \<le> 1"
proof (cases "pk_requests s = []")
  case True
  then show ?thesis by (simp add: outstanding_def)
next
  case False
  then have split: "pk_requests s = butlast (pk_requests s) @ [last (pk_requests s)]"
    by simp
  from assms have "list_all rq_aborted (butlast (pk_requests s))"
    by (simp add: picker_inv_def)
  then have "filter (\<lambda>r. \<not> rq_aborted r \<and> \<not> rq_settled r) (butlast (pk_requests s)) = []"
    by (simp add: list_all_iff filter_empty_conv)
  then have "outstanding s
      = filter (\<lambda>r. \<not> rq_aborted r \<and> \<not> rq_settled r) [last (pk_requests s)]"
    unfolding outstanding_def by (subst split) (simp only: filter_append append_Nil)
  then show ?thesis by simp
qed

lemma stale_multi:
  assumes "k < length (pk_requests s)" and "rq_aborted (pk_requests s ! k)"
  shows "pk_items (settle_multi s k r) = pk_items s
       \<and> pk_error (settle_multi s k r) = pk_error s
       \<and> pk_loading (settle_multi s k r) = pk_loading s
       \<and> pk_activeIndex (settle_multi s k r) = pk_activeIndex s"
  using assms by (simp add: settle_multi_def Let_def)

lemma stale_single:
  assumes "k < length (pk_requests s)" and "rq_aborted (pk_requests s ! k)"
  shows "pk_items (settle_single s k r) = pk_items s
       \<and> pk_error (settle_single s k r) = pk_error s
       \<and> pk_loading (settle_single s k r) = pk_loading s
       \<and> pk_activeIndex (settle_single s k r) = pk_activeIndex s"
  using assms by (simp add: settle_single_def Let_def)

lemma trim_jo: "trim ''jo'' = ''jo''" "trim ''joh'' = ''joh''" "trim [] = []"
  by (simp_all add: trim_def is_space_def)

lemma scenario_multi:
  "pk_requests (run_multi 2 (init_picker :: 'a picker)
       [M_SetOpen True, M_SetInput ''jo'', M_SetInput ''joh'', M_DebounceElapsed])
     = [\<lparr>rq_query = ''joh'', rq_isNewQuery = True, rq_aborted = False, rq_settled = False\<rparr>]"
  by (simp add: run_multi_def init_picker_def effect_multi_def run_cleanup_def abort_ctl_def
      Let_def trim_jo)

lemma scenario_single:
  "pk_requests (run_single 2 (init_picker :: 'a picker)
       [S_Focus, S_Change ''jo'', S_Change ''joh'', S_DebounceElapsed])
     = [\<lparr>rq_query = ''joh'', rq_isNewQuery = True, rq_aborted = False, rq_settled = False\<rparr>]"
  by (simp add: run_single_def init_picker_def effect_single_def run_cleanup_def abort_ctl_def
      Let_def trim_jo)

text \<open>
  C7. In every state either picker reaches from its initial state, by any sequence of
  events, every request but the last created one has been cancelled and
  \<^verbatim>\<open>abortRef\<close> holds the last one (\<open>picker_inv\<close>), so at most one request is
  outstanding. Typing \<^verbatim>\<open>jo\<close> and then \<^verbatim>\<open>joh\<close> before the debounce elapses dispatches
  exactly one request, for \<^verbatim>\<open>joh\<close>: a keystroke alone never dispatches (in the
  single-select picker: while it is open). The response of a cancelled request changes
  neither the results, nor the error, nor the loading flag, nor the highlight, whenever
  it arrives.
\<close>

theorem search_single_flight:
  "picker_inv (run_multi m init_picker mevs)
   \<and> length (outstanding (run_multi m init_picker mevs)) \<le> 1
   \<and> picker_inv (run_single m init_picker sevs)
   \<and> length (outstanding (run_single m init_picker sevs)) \<le> 1
   \<and> pk_requests (run_multi 2 (init_picker :: 'a picker)
         [M_SetOpen True, M_SetInput ''jo'', M_SetInput ''joh'', M_DebounceElapsed])
       = [\<lparr>rq_query = ''joh'', rq_isNewQuery = True, rq_aborted = False, rq_settled = False\<rparr>]
   \<and> pk_requests (run_single 2 (init_picker :: 'a picker)
         [S_Focus, S_Change ''jo'', S_Change ''joh'', S_DebounceElapsed])
       = [\<lparr>rq_query = ''joh'', rq_isNewQuery = True, rq_aborted = False, rq_settled = False\<rparr>]
   \<and> pk_requests (step_multi m s (M_SetInput v)) = pk_requests s
   \<and> (pk_open s \<longrightarrow> pk_requests (step_single m s (S_Change v)) = pk_requests s)
   \<and> (k < length (pk_requests s) \<and> rq_aborted (pk_requests s ! k) \<longrightarrow>
         pk_items (settle_multi s k r) = pk_items s
       \<and> pk_error (settle_multi s k r) = pk_error s
       \<and> pk_loading (settle_multi s k r) = pk_loading s
       \<and> pk_activeIndex (settle_multi s k r) = pk_activeIndex s
       \<and> pk_items (settle_single s k r) = pk_items s
       \<and> pk_error (settle_single s k r) = pk_error s
       \<and> pk_loading (settle_single s k r) = pk_loading s
       \<and> pk_activeIndex (settle_single s k r) = pk_activeIndex s)"
proof -
  have m: "picker_inv (run_multi m init_picker mevs)"
    using inv_init by (rule inv_run_multi)
  have sg: "picker_inv (run_single m init_picker sevs)"
    using inv_init by (rule inv_run_single)
  have typing: "pk_requests (step_multi m s (M_SetInput v)) = pk_requests s"
    "pk_open s \<longrightarrow> pk_requests (step_single m s (S_Change v)) = pk_requests s"
    by simp_all
  show ?thesis
    using m sg inv_outstanding [OF m] inv_outstanding [OF sg] scenario_multi scenario_single
      typing stale_multi [of k s r] stale_single [of k s r]
    by blast
qed

lemma superseded_state_eval:
  "superseded_state =
     \<lparr> pk_open = True, pk_input = ''joh'', pk_debounced = ''joh'', pk_items = [],
       pk_loading = True, pk_error = None, pk_activeIndex = 0,
       pk_requests =
         [\<lparr>rq_query = ''jo'', rq_isNewQuery = True, rq_aborted = True, rq_settled = False\<rparr>,
          \<lparr>rq_query = ''joh'', rq_isNewQuery = True, rq_aborted = False, rq_settled = False\<rparr>],
       pk_abortRef = Some 1, pk_cleanup = Some 1, pk_lastQuery = ''joh'' \<rparr>"
  by (simp add: superseded_state_def run_multi_def init_picker_def effect_multi_def
      run_cleanup_def abort_ctl_def Let_def trim_jo)

theorem search_single_flight_witness:
  "pk_open superseded_state
   \<and> map rq_query (pk_requests superseded_state) = [''jo'', ''joh'']
   \<and> map rq_aborted (pk_requests superseded_state) = [True, False]
   \<and> length (outstanding superseded_state) = 1
   \<and> pk_requests (step_single 2 superseded_state (S_Change ''john'')) = pk_requests superseded_state
   \<and> pk_items (settle_multi superseded_state 0 (Results [''Joan''])) = []
   \<and> pk_loading (settle_multi superseded_state 0 (Results [''Joan'']))
   \<and> pk_error (settle_multi superseded_state 0 Rejected) = None
   \<and> pk_items (settle_single superseded_state 0 (Results [''Joan''])) = []
   \<and> pk_loading (settle_single superseded_state 0 (Results [''Joan'']))"
proof -
  have o: "pk_open superseded_state"
    and q: "map rq_query (pk_requests superseded_state) = [''jo'', ''joh'']"
    and a: "map rq_aborted (pk_requests superseded_state) = [True, False]"
    and k: "0 < length (pk_requests superseded_state)"
           "rq_aborted (pk_requests superseded_state ! 0)"
    and i: "pk_items superseded_state = []" "pk_loading superseded_state"
           "pk_error superseded_state = None"
    and n: "length (outstanding superseded_state) = 1"
    by (simp_all add: superseded_state_eval outstanding_def)
  have r1: "pk_items (settle_multi superseded_state 0 (Results [''Joan''])) = []
      \<and> pk_loading (settle_multi superseded_state 0 (Results [''Joan'']))
      \<and> pk_items (settle_single superseded_state 0 (Results [''Joan''])) = []
      \<and> pk_loading (settle_single superseded_state 0 (Results [''Joan'']))
      \<and> pk_requests (step_single 2 superseded_state (S_Change ''john''))
          = pk_requests superseded_state"
    using search_single_flight [of 2 "[]" "[]" superseded_state "''john''" 0 "Results [''Joan'']"]
      o k i
    by metis
  have r2: "pk_error (settle_multi superseded_state 0 Rejected) = None"
    using search_single_flight [of 2 "[]" "[]" superseded_state "''john''" 0 Rejected] k i
    by metis
  show ?thesis
    using r1 r2 o q a n by blast
qed

lemma multi_results_highlight:
  assumes "k < length (pk_requests s)" and "\<not> rq_settled (pk_requests s ! k)"
    and "\<not> rq_aborted (pk_requests s ! k)"
  shows "pk_activeIndex (settle_multi s k (Results res))
       = (if rq_isNewQuery (pk_requests s ! k) then 0 else pk_activeIndex s)"
  using assms by (simp add: settle_multi_def Let_def)

lemma multi_dispatch_isNewQuery:
  assumes "pk_open s" and "m \<le> length (trim (pk_debounced s))"
  shows "rq_isNewQuery (last (pk_requests (effect_multi m s)))
       = (trim (pk_debounced s) \<noteq> pk_lastQuery s)"
  using assms by (simp add: effect_multi_def Let_def)

text \<open>
  C8. The single-select \<^verbatim>\<open>EntityPicker\<close> against the claim: the query \<^verbatim>\<open>jo\<close> is
  dispatched, its three results arrive, the user moves the highlight to index 2, the
  effect runs again for the same query (the \<^verbatim>\<open>search\<close> dependency changed), and the
  second response resets the highlight to 0. On the same events the multi-select hook,
  which tracks the last query, keeps the highlight at 2.
\<close>

theorem single_picker_resets_highlight:
  "pk_activeIndex (run_single 2 init_picker
       [S_Focus, S_Change ''jo'', S_DebounceElapsed, S_Settle 0 (Results [''a'', ''b'', ''c'']),
        S_ArrowDown, S_ArrowDown, S_DepsChanged]) = 2
   \<and> map rq_query (pk_requests (run_single 2 init_picker
       [S_Focus, S_Change ''jo'', S_DebounceElapsed, S_Settle 0 (Results [''a'', ''b'', ''c'']),
        S_ArrowDown, S_ArrowDown, S_DepsChanged])) = [''jo'', ''jo'']
   \<and> pk_activeIndex (run_single 2 init_picker
       [S_Focus, S_Change ''jo'', S_DebounceElapsed, S_Settle 0 (Results [''a'', ''b'', ''c'']),
        S_ArrowDown, S_ArrowDown, S_DepsChanged, S_Settle 1 (Results [''a'', ''b'', ''c''])]) = 0
   \<and> pk_activeIndex (run_multi 2 init_picker
       [M_SetOpen True, M_SetInput ''jo'', M_DebounceElapsed,
        M_Settle 0 (Results [''a'', ''b'', ''c'']), M_SetActiveIndex 2, M_DepsChanged,
        M_Settle 1 (Results [''a'', ''b'', ''c''])]) = 2"
  by (simp add: run_single_def run_multi_def init_picker_def effect_single_def effect_multi_def
      settle_single_def settle_multi_def run_cleanup_def abort_ctl_def Let_def trim_jo)

end
